theory Spec2Isabelle
  imports Main
begin

section \<open>Background graph search of lib/slp\_graph\_search.py\<close>

text \<open>
  A shallow embedding of \<^verbatim>\<open>GraphSearchJob\<close> and \<^verbatim>\<open>SlpGraphSearchManager\<close>.
  Job objects are shared between the registry, the two queues and the callers that hold
  them, so jobs live in an explicit store and are named by references. The two worker
  threads are modelled by the bodies of their loops: one call of
  \<open>metadata_loop\<close> is one iteration of the metadata thread, one call of
  \<open>search_loop\<close> is the dequeue at the top of the search thread, and one call of
  \<open>search_query_frame\<close> is one call of the recursive \<^verbatim>\<open>search_query\<close>.
  What the network answers is an argument of the iteration that asks.
\<close>

subsection \<open>Values\<close>

type_synonym txid = string
type_synonym job_ref = nat
type_synonym valjob_ref = nat
type_synonym tx_ref = nat

text \<open>Python's \<^verbatim>\<open>str\<close> on a non-negative integer.\<close>

definition digit :: "nat \<Rightarrow> char" where
  "digit d = ''0123456789'' ! d"

fun str :: "nat \<Rightarrow> string" where
  "str n = (if n < 10 then [digit n] else str (n div 10) @ [digit (n mod 10)])"

declare str.simps [simp del]

text \<open>
  The exceptions that reach the handlers of the two loops. \<open>OtherException\<close> stands
  for whatever \<^verbatim>\<open>requests\<close>, \<^verbatim>\<open>json\<close> or \<^verbatim>\<open>base64\<close> raise, with its message.
\<close>

datatype py_exception =
    KeyError string
  | TypeError string
  | ValueError string
  | SlpdbErrorNoSearchData string
  | OtherException string

text \<open>\<^verbatim>\<open>str(e)\<close>: a KeyError prints the repr of its key, the others their message.\<close>

fun str_exc :: "py_exception \<Rightarrow> string" where
  "str_exc (KeyError k) = [CHR 0x27] @ k @ [CHR 0x27]"
| "str_exc (TypeError m) = m"
| "str_exc (ValueError m) = m"
| "str_exc (SlpdbErrorNoSearchData m) = m"
| "str_exc (OtherException m) = m"

text \<open>
  The callbacks a job can hold: the closure built by \<^verbatim>\<open>restart_search\<close>, or a callback
  of a caller outside this file, which is opaque here and only recorded when invoked.
\<close>

datatype callback = RestartCallback | ExternalCallback nat

text \<open>The request descriptor kept in \<^verbatim>\<open>last_search_url\<close>: host, frontier and depth.\<close>

datatype search_url = UrlEmpty | SearchUrl string "txid list" int

datatype request =
    MetadataGet string txid
  | SearchPost string "txid list" int

subsection \<open>The validation job, seen from here\<close>

text \<open>
  The owner is an object of the validator. Only these attributes are read:
  \<^verbatim>\<open>root_txid\<close>, \<^verbatim>\<open>running\<close>, \<^verbatim>\<open>has_never_run\<close> and \<^verbatim>\<open>network.slpdb_host\<close>
  (None when unset).
\<close>

record valjob =
  valjob_root_txid :: txid
  running :: bool
  has_never_run :: bool
  slpdb_host :: "string option"

subsection \<open>GraphSearchJob\<close>

type_synonym depth_map_t = "string \<rightharpoonup> int \<times> int"

record GraphSearchJob =
  root_txid :: txid
  valjob :: valjob_ref
  depth_map :: "depth_map_t option"
  total_depth :: "int option"
  txn_count_total :: "int option"
  search_started :: bool
  search_success :: "bool option"
  job_complete :: bool
  exit_msg :: "string option"
  depth_completed :: int
  depth_current_query :: "int option"
  txn_count_progress :: nat
  last_search_url :: search_url
  waiting_to_cancel :: bool
  cancel_callback :: "callback option"
  fetch_retries :: nat

definition GraphSearchJob_init :: "txid \<Rightarrow> valjob_ref \<Rightarrow> GraphSearchJob" where
  "GraphSearchJob_init t v =
     \<lparr> root_txid = t, valjob = v,
       depth_map = None, total_depth = None, txn_count_total = None,
       search_started = False, search_success = None, job_complete = False,
       exit_msg = None, depth_completed = 0, depth_current_query = None,
       txn_count_progress = 0, last_search_url = UrlEmpty,
       waiting_to_cancel = False, cancel_callback = None, fetch_retries = 0 \<rparr>"

definition sched_cancel :: "callback option \<Rightarrow> string \<Rightarrow> GraphSearchJob \<Rightarrow> GraphSearchJob" where
  "sched_cancel cb reason job =
     (let job1 = job\<lparr>exit_msg := Some reason\<rparr> in
      if job_complete job1 then job1
      else if \<not> waiting_to_cancel job1
        then job1\<lparr>waiting_to_cancel := True, cancel_callback := cb\<rparr>
      else job1)"

definition set_success :: "GraphSearchJob \<Rightarrow> GraphSearchJob" where
  "set_success job = job\<lparr>search_success := Some True, job_complete := True\<rparr>"

definition set_failed :: "string option \<Rightarrow> GraphSearchJob \<Rightarrow> GraphSearchJob" where
  "set_failed reason job =
     job\<lparr>search_started := True, search_success := Some False,
         job_complete := True, exit_msg := reason\<rparr>"

subsection \<open>What the back end answers\<close>

text \<open>
  One element of the array \<^verbatim>\<open>g\<close> of a metadata answer: either one of the three keys
  is missing (the lookup raises KeyError on it), or the three values, each of which JSON
  lets be null.
\<close>

record stats =
  depthMap :: "depth_map_t option"
  txcount :: "int option"
  totalDepth :: "int option"

datatype g_elem = MissingKey string | Stats stats

text \<open>
  The answer to the GET of \<^verbatim>\<open>metadata_query\<close>: the request or the decoding raises
  something that is not a KeyError, or the JSON has no key \<^verbatim>\<open>g\<close>, or it has one.
\<close>

datatype metadata_reply = GetRaises string | NoG | G "g_elem list"

text \<open>The loop of \<^verbatim>\<open>metadata_query\<close>: the last element of \<^verbatim>\<open>g\<close> wins.\<close>

fun metadata_query_loop :: "g_elem list \<Rightarrow> stats option \<Rightarrow> py_exception + stats option" where
  "metadata_query_loop [] res = Inr res"
| "metadata_query_loop (MissingKey k # es) res = Inl (KeyError k)"
| "metadata_query_loop (Stats o' # es) res = metadata_query_loop es (Some o')"

definition metadata_query :: "metadata_reply \<Rightarrow> py_exception + stats option" where
  "metadata_query reply =
     (case reply of
        GetRaises m \<Rightarrow> Inl (OtherException m)
      | NoG \<Rightarrow> Inl (KeyError ''g'')
      | G es \<Rightarrow> metadata_query_loop es None)"

text \<open>
  \<^verbatim>\<open>fetch_metadata\<close> on the job: a KeyError becomes SlpdbErrorNoSearchData, also the one
  of reading \<^verbatim>\<open>totalDepth\<close> from the empty dict of an empty \<^verbatim>\<open>g\<close>.
\<close>

definition fetch_metadata :: "metadata_reply \<Rightarrow> GraphSearchJob \<Rightarrow> py_exception + GraphSearchJob" where
  "fetch_metadata reply job =
     (case metadata_query reply of
        Inl (KeyError k) \<Rightarrow> Inl (SlpdbErrorNoSearchData (str_exc (KeyError k)))
      | Inl e \<Rightarrow> Inl e
      | Inr None \<Rightarrow> Inl (SlpdbErrorNoSearchData (str_exc (KeyError ''totalDepth'')))
      | Inr (Some res) \<Rightarrow>
          Inr (job\<lparr>total_depth := totalDepth res,
                   txn_count_total := txcount res,
                   depth_map := depthMap res\<rparr>))"

text \<open>
  The answers on which \<^verbatim>\<open>fetch_metadata\<close> raises SlpdbErrorNoSearchData: a key is
  missing somewhere, or \<^verbatim>\<open>g\<close> is empty.
\<close>

definition no_search_data :: "metadata_reply \<Rightarrow> bool" where
  "no_search_data reply =
     (case metadata_query reply of
        Inl (KeyError k) \<Rightarrow> True
      | Inl e \<Rightarrow> False
      | Inr None \<Rightarrow> True
      | Inr (Some res) \<Rightarrow> False)"

subsection \<open>The transaction cache\<close>

text \<open>
  A \<^verbatim>\<open>Transaction\<close> is an object with its raw hex string (empty or None is falsy; both
  are the empty string here) and the state \<^verbatim>\<open>deserialize()\<close> fills in.
\<close>

record transaction =
  raw :: string
  deserialized :: bool

definition Transaction :: "string \<Rightarrow> transaction" where
  "Transaction r = \<lparr> raw = r, deserialized = False \<rparr>"

text \<open>
  Modelled from the spec: \<^verbatim>\<open>ExpiringCache\<close> of lib/caches.py is not among the sources.
  A store of bounded capacity from key to value; \<open>put\<close> keeps the value under the key
  and evicts the oldest entry when the capacity is reached; \<open>get\<close> gives the value kept
  under the key or None. The entries are listed oldest first.
\<close>

record 'v expiring_cache =
  maxlen :: nat
  entries :: "(string \<times> 'v) list"

definition ExpiringCache :: "nat \<Rightarrow> 'v expiring_cache" where
  "ExpiringCache n = \<lparr> maxlen = n, entries = [] \<rparr>"

definition cache_get :: "'v expiring_cache \<Rightarrow> string \<Rightarrow> 'v option" where
  "cache_get c k = map_of (entries c) k"

definition cache_put :: "'v expiring_cache \<Rightarrow> string \<Rightarrow> 'v \<Rightarrow> 'v expiring_cache" where
  "cache_put c k v =
     (let others = filter (\<lambda>(k', _). k' \<noteq> k) (entries c);
          kept = (if length others < maxlen c then others
                  else drop (Suc (length others) - maxlen c) others)
      in c\<lparr>entries := kept @ [(k, v)]\<rparr>)"

subsection \<open>SlpGraphSearchManager\<close>

text \<open>
  The state of the manager, the objects it shares with its callers and what it has done
  to the outside: \<open>jobs\<close> and \<open>txs\<close> are the stores of job and transaction objects
  with their allocation counters, \<open>valjobs\<close> the validator's objects,
  \<open>search_frame\<close> the arguments of the call of \<^verbatim>\<open>search_query\<close> the search thread is
  about to make (None when it waits on its queue), and the three logs record the requests
  sent, the callbacks invoked and the seconds slept.
\<close>

record manager =
  search_jobs :: "txid \<rightharpoonup> job_ref"
  metadata_queue :: "job_ref list"
  search_queue :: "job_ref list"
  cancel_thresh_txcount :: int
  fetched_tx_cache :: "tx_ref expiring_cache"
  jobs :: "job_ref \<Rightarrow> GraphSearchJob"
  next_job :: job_ref
  txs :: "tx_ref \<Rightarrow> transaction"
  next_tx :: tx_ref
  valjobs :: "valjob_ref \<Rightarrow> valjob"
  search_frame :: "(job_ref \<times> txid list \<times> nat) option"
  request_log :: "request list"
  callback_log :: "(callback \<times> job_ref) list"
  slept :: nat

definition manager_init :: "(valjob_ref \<Rightarrow> valjob) \<Rightarrow> manager" where
  "manager_init vs =
     \<lparr> search_jobs = Map.empty, metadata_queue = [], search_queue = [],
       cancel_thresh_txcount = 20,
       fetched_tx_cache = ExpiringCache 100000,
       jobs = (\<lambda>_. GraphSearchJob_init [] 0), next_job = 0,
       txs = (\<lambda>_. Transaction []), next_tx = 0,
       valjobs = vs, search_frame = None,
       request_log = [], callback_log = [], slept = 0 \<rparr>"

definition upd_job :: "job_ref \<Rightarrow> (GraphSearchJob \<Rightarrow> GraphSearchJob) \<Rightarrow> manager \<Rightarrow> manager" where
  "upd_job r f s = s\<lparr>jobs := (jobs s)(r := f (jobs s r))\<rparr>"

definition owner_of :: "manager \<Rightarrow> job_ref \<Rightarrow> valjob" where
  "owner_of s r = valjobs s (valjob (jobs s r))"

text \<open>\<^verbatim>\<open>not job.valjob.running and not job.valjob.has_never_run\<close>\<close>

definition owner_finished :: "manager \<Rightarrow> job_ref \<Rightarrow> bool" where
  "owner_finished s r = (\<not> running (owner_of s r) \<and> \<not> has_never_run (owner_of s r))"

text \<open>\<^verbatim>\<open>new_search\<close>: a new job object, put on the metadata queue and returned.\<close>

definition new_search :: "valjob_ref \<Rightarrow> manager \<Rightarrow> manager \<times> job_ref" where
  "new_search v s =
     (let txid = valjob_root_txid (valjobs s v);
          r = next_job s
      in (s\<lparr>jobs := (jobs s)(r := GraphSearchJob_init txid v),
            next_job := Suc r,
            metadata_queue := metadata_queue s @ [r]\<rparr>, r))"

text \<open>The closure \<^verbatim>\<open>callback\<close> of \<^verbatim>\<open>restart_search\<close>, applied to a job.\<close>

definition restart_callback :: "job_ref \<Rightarrow> manager \<Rightarrow> manager" where
  "restart_callback r s =
     (let s1 = s\<lparr>search_jobs := (search_jobs s)(root_txid (jobs s r) := None)\<rparr>
      in fst (new_search (valjob (jobs s1 r)) s1))"

text \<open>Calling a callback on a job: the call is recorded, then its body runs.\<close>

definition call_callback :: "callback \<Rightarrow> job_ref \<Rightarrow> manager \<Rightarrow> manager" where
  "call_callback cb r s =
     (let s1 = s\<lparr>callback_log := callback_log s @ [(cb, r)]\<rparr>
      in case cb of
           RestartCallback \<Rightarrow> restart_callback r s1
         | ExternalCallback n \<Rightarrow> s1)"

text \<open>\<^verbatim>\<open>GraphSearchJob._cancel\<close>\<close>

definition cancel :: "job_ref \<Rightarrow> manager \<Rightarrow> manager" where
  "cancel r s =
     (let s1 = upd_job r (\<lambda>job. job\<lparr>job_complete := True, search_success := Some False\<rparr>) s
      in case cancel_callback (jobs s1 r) of
           None \<Rightarrow> s1
         | Some cb \<Rightarrow> call_callback cb r s1)"

text \<open>
  \<^verbatim>\<open>restart_search\<close>. The callback it passes is a function object, so it is never
  falsy.
\<close>

definition restart_search :: "job_ref \<Rightarrow> manager \<Rightarrow> manager" where
  "restart_search r s =
     (if \<not> job_complete (jobs s r)
      then upd_job r (sched_cancel (Some RestartCallback) ''job restarted'') s
      else call_callback RestartCallback r s)"

text \<open>
  One iteration of \<^verbatim>\<open>metadata_loop\<close>, with the answer the back end gives if asked.
  On an empty queue \<^verbatim>\<open>get(block=True)\<close> waits: nothing changes.
\<close>

definition metadata_fetch :: "metadata_reply \<Rightarrow> job_ref \<Rightarrow> manager \<Rightarrow> manager" where
  "metadata_fetch reply r s =
     (let host = (case slpdb_host (owner_of s r) of None \<Rightarrow> [] | Some h \<Rightarrow> h);
          s1 = s\<lparr>request_log := request_log s @ [MetadataGet host (root_txid (jobs s r))]\<rparr>
      in case fetch_metadata reply (jobs s1 r) of
           Inl (SlpdbErrorNoSearchData m) \<Rightarrow>
             if fetch_retries (jobs s1 r) > 10
             then upd_job r (set_failed (Some ''No data found, right-click to try'')) s1
             else
               (let s2 = (if metadata_queue s1 = [] then s1\<lparr>slept := slept s1 + 10\<rparr> else s1);
                    s3 = upd_job r (\<lambda>job. job\<lparr>fetch_retries := fetch_retries job + 1\<rparr>) s2
                in s3\<lparr>metadata_queue := metadata_queue s3 @ [r]\<rparr>)
         | Inl e \<Rightarrow> upd_job r (set_failed (Some (str_exc e))) s1
         | Inr job' \<Rightarrow>
             (let s2 = upd_job r (\<lambda>_. job') s1 in
              case txn_count_total job' of
                None \<Rightarrow> upd_job r (set_failed (Some ''metadata error'')) s2
              | Some n \<Rightarrow>
                  if n \<le> cancel_thresh_txcount s2
                  then upd_job r (set_failed (Some ''low txn count'')) s2
                  else s2\<lparr>search_queue := search_queue s2 @ [r]\<rparr>))"

definition metadata_loop :: "metadata_reply \<Rightarrow> manager \<Rightarrow> manager" where
  "metadata_loop reply s =
     (case metadata_queue s of
        [] \<Rightarrow> s
      | r # q \<Rightarrow>
          (let s1 = s\<lparr>metadata_queue := q\<rparr> in
           if search_jobs s1 (root_txid (jobs s1 r)) \<noteq> None then s1
           else
             (let s2 = s1\<lparr>search_jobs := (search_jobs s1)(root_txid (jobs s1 r) \<mapsto> r)\<rparr> in
              if owner_finished s2 r
              then upd_job r (set_failed (Some ''validation finished'')) s2
              else if slpdb_host (owner_of s2 r) = None \<or> slpdb_host (owner_of s2 r) = Some []
              then upd_job r (set_failed (Some ''SLPDB host not set'')) s2
              else metadata_fetch reply r s2)))"

subsection \<open>The class-level transaction cache\<close>

text \<open>
  \<^verbatim>\<open>Transaction\<close> is imported from lib/transaction.py, which is not among the sources.
  The function that derives the id of a transaction from its raw bytes
  (\<^verbatim>\<open>Transaction._txid\<close>, \<^verbatim>\<open>txid_fast\<close>) is a parameter \<open>tx_hash\<close> of everything that
  uses it.
\<close>

definition invalid_raw_msg :: string where
  "invalid_raw_msg = ''Please pass a tx which has a valid .raw attribute!''"

text \<open>
  \<^verbatim>\<open>tx_cache_get\<close>: on a hit with truthy raw bytes a new \<^verbatim>\<open>Transaction\<close> object is
  built and returned, never the cached one.
\<close>

definition tx_cache_get :: "txid \<Rightarrow> manager \<Rightarrow> manager \<times> tx_ref option" where
  "tx_cache_get txid s =
     (case cache_get (fetched_tx_cache s) txid of
        None \<Rightarrow> (s, None)
      | Some p \<Rightarrow>
          if raw (txs s p) \<noteq> []
          then (let q = next_tx s
                in (s\<lparr>txs := (txs s)(q := Transaction (raw (txs s p))), next_tx := Suc q\<rparr>,
                    Some q))
          else (s, None))"

text \<open>
  \<^verbatim>\<open>tx_cache_put\<close>: the argument \<open>tx\<close> may be None, the optional \<open>txid\<close> may be None
  or empty; what is stored is a new object built from the raw bytes.
\<close>

definition tx_cache_put ::
  "(string \<Rightarrow> txid) \<Rightarrow> transaction option \<Rightarrow> txid option \<Rightarrow> manager \<Rightarrow> py_exception + manager" where
  "tx_cache_put tx_hash tx txid s =
     (case tx of
        None \<Rightarrow> Inl (ValueError invalid_raw_msg)
      | Some t \<Rightarrow>
          if raw t = [] then Inl (ValueError invalid_raw_msg)
          else
            (let k = (case txid of
                        None \<Rightarrow> tx_hash (raw t)
                      | Some i \<Rightarrow> if i = [] then tx_hash (raw t) else i);
                 q = next_tx s
             in Inr (s\<lparr>txs := (txs s)(q := Transaction (raw t)),
                       next_tx := Suc q,
                       fetched_tx_cache := cache_put (fetched_tx_cache s) k q\<rparr>)))"

text \<open>
  The loop \<^verbatim>\<open>for tx in txns: tx_cache_put(tx[1])\<close>: it stops at the first put that
  raises, and the puts before it stay.
\<close>

fun tx_cache_put_all ::
  "(string \<Rightarrow> txid) \<Rightarrow> transaction list \<Rightarrow> manager \<Rightarrow> manager \<times> py_exception option" where
  "tx_cache_put_all tx_hash [] s = (s, None)"
| "tx_cache_put_all tx_hash (t # ts) s =
     (case tx_cache_put tx_hash (Some t) None s of
        Inl e \<Rightarrow> (s, Some e)
      | Inr s' \<Rightarrow> tx_cache_put_all tx_hash ts s')"

subsection \<open>The search thread\<close>

text \<open>
  The answer to the POST of \<^verbatim>\<open>search_query\<close>: either something raises between sending
  the request and the end of decoding (the request, the JSON decoding, a missing key, the
  base64 decoding; all of it before the job or the cache is touched again), or the elements
  of \<^verbatim>\<open>g\<close>, each with its list \<^verbatim>\<open>dependsOn\<close> (here already the hex strings of the
  decoded transactions) and its list \<^verbatim>\<open>depths\<close>.
\<close>

datatype search_reply = PostRaises py_exception | Docs "(string list \<times> int list) list"

text \<open>How one call of \<^verbatim>\<open>search_query\<close> ends: it returns, it raises, or it calls itself.\<close>

datatype outcome = Return | Raise py_exception | Recurse "txid list" nat

definition none_subscript_msg :: string where
  "none_subscript_msg = [CHR 0x27] @ ''NoneType'' @ [CHR 0x27] @ '' object is not subscriptable''"

definition none_concat_msg :: string where
  "none_concat_msg = ''unsupported operand type(s) for +: '' @ [CHR 0x27] @ ''NoneType'' @ [CHR 0x27]
      @ '' and '' @ [CHR 0x27] @ ''str'' @ [CHR 0x27]"

definition none_compare_msg :: string where
  "none_compare_msg = [CHR 0x27] @ ''<'' @ [CHR 0x27] @ '' not supported between instances of ''
      @ [CHR 0x27] @ ''int'' @ [CHR 0x27] @ '' and '' @ [CHR 0x27] @ ''NoneType'' @ [CHR 0x27]"

text \<open>
  \<^verbatim>\<open>query_depth\<close>: the depth at this boundary, less the depth at the previous boundary
  when this is not the first chunk.
\<close>

definition query_depth_of :: "depth_map_t \<Rightarrow> nat \<Rightarrow> int \<Rightarrow> py_exception + int" where
  "query_depth_of dm depth_map_index cur =
     (if depth_map_index > 0
      then (case dm (str (depth_map_index * 1000)) of
              None \<Rightarrow> Inl (KeyError (str (depth_map_index * 1000)))
            | Some (d0, c0) \<Rightarrow> Inr (cur - d0))
      else Inr cur)"

text \<open>
  The part of \<^verbatim>\<open>search_query\<close> after the answer is decoded: \<open>txns\<close> are the pairs of
  depth and raw transaction, \<open>cur\<close> is the depth at this chunk's boundary (the depth map
  is read again at the same key, and nothing has changed it).
\<close>

definition search_result ::
  "(string \<Rightarrow> txid) \<Rightarrow> (int \<times> string) list \<Rightarrow> job_ref \<Rightarrow> nat \<Rightarrow> int \<Rightarrow> int \<Rightarrow> manager
     \<Rightarrow> manager \<times> outcome" where
  "search_result tx_hash txns r depth_map_index cur query_depth s =
     (let s1 = upd_job r (\<lambda>job. job\<lparr>txn_count_progress := txn_count_progress job + length txns\<rparr>) s
      in case tx_cache_put_all tx_hash (map (\<lambda>tx. Transaction (snd tx)) txns) s1 of
           (s2, Some e) \<Rightarrow> (s2, Raise e)
         | (s2, None) \<Rightarrow>
             (let s3 = (if txns \<noteq> [] then upd_job r (\<lambda>job. job\<lparr>depth_completed := cur\<rparr>) s2
                        else s2)
              in case total_depth (jobs s3 r) of
                   None \<Rightarrow> (s3, Raise (TypeError none_compare_msg))
                 | Some td \<Rightarrow>
                     if depth_completed (jobs s3 r) < td
                     then (s3, Recurse (map (\<lambda>tx. tx_hash (snd tx))
                                          (filter (\<lambda>tx. fst tx = query_depth) txns))
                                       (depth_map_index + 1))
                     else (upd_job r set_success s3, Return)))"

text \<open>The part of \<^verbatim>\<open>search_query\<close> that builds and sends the request.\<close>

definition search_request ::
  "(string \<Rightarrow> txid) \<Rightarrow> search_reply \<Rightarrow> job_ref \<Rightarrow> txid list \<Rightarrow> nat \<Rightarrow> int \<Rightarrow> int \<Rightarrow> manager
     \<Rightarrow> manager \<times> outcome" where
  "search_request tx_hash reply r txids depth_map_index cur query_depth s =
     (case slpdb_host (owner_of s r) of
        None \<Rightarrow> (s, Raise (TypeError none_concat_msg))
      | Some host \<Rightarrow>
          (let s1 = upd_job r (\<lambda>job. job\<lparr>last_search_url := SearchUrl host txids query_depth\<rparr>) s;
               s2 = s1\<lparr>request_log := request_log s1 @ [SearchPost host txids query_depth]\<rparr>
           in case reply of
                PostRaises e \<Rightarrow> (s2, Raise e)
              | Docs g \<Rightarrow>
                  search_result tx_hash (zip (concat (map snd g)) (concat (map fst g)))
                    r depth_map_index cur query_depth s2))"

text \<open>
  One call \<^verbatim>\<open>search_query(job, txids, depth_map_index)\<close>, up to its return, its exception
  or its recursive call, with the answer the back end gives if asked.
\<close>

definition search_query ::
  "(string \<Rightarrow> txid) \<Rightarrow> search_reply \<Rightarrow> job_ref \<Rightarrow> txid list \<Rightarrow> nat \<Rightarrow> manager
     \<Rightarrow> manager \<times> outcome" where
  "search_query tx_hash reply r txids0 depth_map_index s =
     (if waiting_to_cancel (jobs s r) then (cancel r s, Return)
      else if owner_finished s r
      then (upd_job r (set_failed (Some ''validation finished'')) s, Return)
      else
        (let txids = (if depth_map_index = 0 then [root_txid (jobs s r)] else txids0) in
         case depth_map (jobs s r) of
           None \<Rightarrow> (s, Raise (TypeError none_subscript_msg))
         | Some dm \<Rightarrow>
             (case dm (str ((depth_map_index + 1) * 1000)) of
                None \<Rightarrow> (s, Raise (KeyError (str ((depth_map_index + 1) * 1000))))
              | Some (cur, txn_count) \<Rightarrow>
                  (let s1 = upd_job r (\<lambda>job. job\<lparr>depth_current_query := Some cur\<rparr>) s in
                   case query_depth_of dm depth_map_index cur of
                     Inl e \<Rightarrow> (s1, Raise e)
                   | Inr query_depth \<Rightarrow>
                       search_request tx_hash reply r txids depth_map_index cur query_depth s1))))"

text \<open>
  The top of \<^verbatim>\<open>search_loop\<close>: a job is taken from the queue while the thread is not
  inside \<^verbatim>\<open>search_query\<close>; the first call of \<^verbatim>\<open>search_query\<close> is then pending.
\<close>

definition search_loop :: "manager \<Rightarrow> manager" where
  "search_loop s =
     (case search_frame s of
        Some f \<Rightarrow> s
      | None \<Rightarrow>
          (case search_queue s of
             [] \<Rightarrow> s
           | r # q \<Rightarrow>
               (let s1 = s\<lparr>search_queue := q\<rparr>;
                    s2 = upd_job r (\<lambda>job. job\<lparr>search_started := True\<rparr>) s1
                in if owner_finished s2 r
                   then upd_job r (set_failed (Some ''validation finished'')) s2
                   else s2\<lparr>search_frame := Some (r, [], 0)\<rparr>)))"

text \<open>
  The pending call of \<^verbatim>\<open>search_query\<close> is made. A recursive call becomes the next
  pending call; an exception unwinds to the handler of \<^verbatim>\<open>search_loop\<close>, which fails
  the job.
\<close>

definition search_query_frame :: "(string \<Rightarrow> txid) \<Rightarrow> search_reply \<Rightarrow> manager \<Rightarrow> manager" where
  "search_query_frame tx_hash reply s =
     (case search_frame s of
        None \<Rightarrow> s
      | Some (r, txids, depth_map_index) \<Rightarrow>
          (case search_query tx_hash reply r txids depth_map_index s of
             (s', Return) \<Rightarrow> s'\<lparr>search_frame := None\<rparr>
           | (s', Recurse txids' i') \<Rightarrow> s'\<lparr>search_frame := Some (r, txids', i')\<rparr>
           | (s', Raise e) \<Rightarrow>
               (upd_job r (set_failed (Some (str_exc e))) s')\<lparr>search_frame := None\<rparr>))"

subsection \<open>What can happen to a manager\<close>

text \<open>
  The threads interleave at the grain of these events: a call of the submission API by
  the validator, a change the validator makes to one of its own objects, a use of the
  cache, one iteration of the metadata thread, the dequeue of the search thread, or one
  call of \<^verbatim>\<open>search_query\<close>. Callers can only name jobs that exist.
\<close>

datatype event =
    NewSearch valjob_ref
  | RestartSearch job_ref
  | SchedCancel job_ref "callback option" string
  | OwnerChanges valjob_ref valjob
  | TxCacheGet txid
  | TxCachePut "transaction option" "txid option"
  | MetadataLoop metadata_reply
  | SearchLoop
  | SearchQuery search_reply

fun exec :: "(string \<Rightarrow> txid) \<Rightarrow> event \<Rightarrow> manager \<Rightarrow> manager" where
  "exec tx_hash (NewSearch v) s = fst (new_search v s)"
| "exec tx_hash (RestartSearch r) s = (if r < next_job s then restart_search r s else s)"
| "exec tx_hash (SchedCancel r cb reason) s =
     (if r < next_job s then upd_job r (sched_cancel cb reason) s else s)"
| "exec tx_hash (OwnerChanges v vj) s = s\<lparr>valjobs := (valjobs s)(v := vj)\<rparr>"
| "exec tx_hash (TxCacheGet t) s = fst (tx_cache_get t s)"
| "exec tx_hash (TxCachePut tx t) s =
     (case tx_cache_put tx_hash tx t s of Inl e \<Rightarrow> s | Inr s' \<Rightarrow> s')"
| "exec tx_hash (MetadataLoop reply) s = metadata_loop reply s"
| "exec tx_hash SearchLoop s = search_loop s"
| "exec tx_hash (SearchQuery reply) s = search_query_frame tx_hash reply s"

subsection \<open>Concrete values for the examples\<close>

definition example_owner :: valjob where
  "example_owner = \<lparr> valjob_root_txid = ''ab'', running = True, has_never_run = False,
                     slpdb_host = Some ''host'' \<rparr>"

text \<open>A new manager to which one job has been submitted.\<close>

definition example_manager :: manager where
  "example_manager = fst (new_search 0 (manager_init (\<lambda>_. example_owner)))"

definition example_depth_map :: depth_map_t where
  "example_depth_map = Map.empty(''1000'' \<mapsto> (3, 1000), ''2000'' \<mapsto> (5, 1200))"

definition example_stats :: "int option \<Rightarrow> metadata_reply" where
  "example_stats n =
     G [Stats \<lparr> depthMap = Some example_depth_map, txcount = n, totalDepth = Some 5 \<rparr>]"

text \<open>The example manager after its job was admitted, was rejected, was dequeued for search.\<close>

definition example_admitted :: manager where
  "example_admitted = metadata_loop (example_stats (Some 21)) example_manager"

definition example_failed :: manager where
  "example_failed = metadata_loop (example_stats (Some 3)) example_manager"

definition example_searching :: manager where
  "example_searching = search_loop example_admitted"

text \<open>Two states that differ at most in the transaction store and the cache.\<close>

definition cache_only :: "manager \<Rightarrow> manager \<Rightarrow> bool" where
  "cache_only s s' =
     (\<exists>t n c. s' = s\<lparr>txs := t, next_tx := n, fetched_tx_cache := c\<rparr>)"

text \<open>
  The answers to the two chunks of a search on the example manager, and the first call of
  \<^verbatim>\<open>search_query\<close> with its outcome.
\<close>

definition example_reply0 :: search_reply where
  "example_reply0 = Docs [([''aa'', ''bb''], [1, 3])]"

definition example_round0 :: "manager \<times> outcome" where
  "example_round0 = search_query (\<lambda>x. x) example_reply0 0 [] 0 example_searching"

definition example_reply1 :: search_reply where
  "example_reply1 = Docs [([''cc''], [2])]"

text \<open>
  The two chunks as the search thread makes them: the pending call is made, and then the
  call it left pending.
\<close>

definition example_driven0 :: manager where
  "example_driven0 = search_query_frame (\<lambda>x. x) example_reply0 example_searching"

definition example_driven1 :: manager where
  "example_driven1 = search_query_frame (\<lambda>x. x) example_reply1 example_driven0"


definition example_pending_search :: manager where
  "example_pending_search =
     fold (exec (\<lambda>x. x))
       [SchedCancel 0 (Some (ExternalCallback 7)) ''stop'',
        OwnerChanges 0 (example_owner\<lparr>running := False\<rparr>)]
       example_admitted"

subsection \<open>Well-formed metadata and what every reachable manager satisfies\<close>

text \<open>
  A depth map is well-formed for a total depth when no depth in it is negative or above
  the total depth, and the depths do not decrease as the boundary key (the decimal string
  of a number) grows.
\<close>

definition depth_map_ok :: "depth_map_t \<Rightarrow> int option \<Rightarrow> bool" where
  "depth_map_ok dm td =
     ((\<forall>k d c. dm k = Some (d, c) \<longrightarrow> 0 \<le> d \<and> (case td of None \<Rightarrow> True | Some t \<Rightarrow> d \<le> t)) \<and>
      (\<forall>m n d c d' c'. m \<le> n \<longrightarrow> dm (str m) = Some (d, c) \<longrightarrow> dm (str n) = Some (d', c')
          \<longrightarrow> d \<le> d'))"

text \<open>A metadata summary is well-formed: its total depth is not negative and its depth
  map, if it has one, is well-formed for it.\<close>

definition stats_ok :: "stats \<Rightarrow> bool" where
  "stats_ok res =
     ((case totalDepth res of None \<Rightarrow> True | Some t \<Rightarrow> 0 \<le> t) \<and>
      (case depthMap res of None \<Rightarrow> True | Some dm \<Rightarrow> depth_map_ok dm (totalDepth res)))"

text \<open>An answer of the back end is well-formed when the summary \<^verbatim>\<open>metadata_query\<close> reads
  from it, if any, is; an event is well-formed when the answer it carries to the metadata
  thread is.\<close>

definition reply_ok :: "metadata_reply \<Rightarrow> bool" where
  "reply_ok reply =
     (case metadata_query reply of
        Inl e \<Rightarrow> True
      | Inr None \<Rightarrow> True
      | Inr (Some res) \<Rightarrow> stats_ok res)"

fun event_ok :: "event \<Rightarrow> bool" where
  "event_ok (MetadataLoop reply) = reply_ok reply"
| "event_ok e = True"

text \<open>
  What holds of every job, of the pending call of \<^verbatim>\<open>search_query\<close>, and of the manager:
  queued jobs exist, are queued once and have made no progress; the job of the pending
  call is in no queue and has not passed any boundary the call has yet to reach.
\<close>

definition job_ok :: "GraphSearchJob \<Rightarrow> bool" where
  "job_ok j =
     ((case total_depth j of None \<Rightarrow> True | Some t \<Rightarrow> depth_completed j \<le> t) \<and>
      (case depth_map j of None \<Rightarrow> True | Some dm \<Rightarrow> depth_map_ok dm (total_depth j)))"

definition frame_ok :: "manager \<Rightarrow> bool" where
  "frame_ok s =
     (case search_frame s of
        None \<Rightarrow> True
      | Some (r, txids, i) \<Rightarrow>
          r < next_job s \<and> r \<notin> set (metadata_queue s) \<and> r \<notin> set (search_queue s) \<and>
          (\<forall>dm n d c. depth_map (jobs s r) = Some dm \<longrightarrow> i < n \<longrightarrow>
              dm (str (n * 1000)) = Some (d, c) \<longrightarrow> depth_completed (jobs s r) \<le> d))"

definition invariant :: "manager \<Rightarrow> bool" where
  "invariant s =
     ((\<forall>r \<in> set (metadata_queue s @ search_queue s).
          r < next_job s \<and> depth_completed (jobs s r) = 0) \<and>
      distinct (metadata_queue s @ search_queue s) \<and>
      (\<forall>r < next_job s. job_ok (jobs s r)) \<and>
      frame_ok s)"

text \<open>
  What one call of \<^verbatim>\<open>search_query\<close> that is not a cancellation may change: of job
  \<open>r\<close> only, and of its depth completed only by setting it to \<open>cur\<close>.
\<close>

definition round_effect :: "job_ref \<Rightarrow> int option \<Rightarrow> manager \<Rightarrow> manager \<Rightarrow> bool" where
  "round_effect r cur s s' =
     (metadata_queue s' = metadata_queue s \<and> search_queue s' = search_queue s \<and>
      next_job s' = next_job s \<and> search_frame s' = search_frame s \<and>
      (\<forall>r'. r' \<noteq> r \<longrightarrow> jobs s' r' = jobs s r') \<and>
      total_depth (jobs s' r) = total_depth (jobs s r) \<and>
      depth_map (jobs s' r) = depth_map (jobs s r) \<and>
      (depth_completed (jobs s' r) = depth_completed (jobs s r) \<or>
       cur = Some (depth_completed (jobs s' r))))"

text \<open>A job that exists, is in no queue, has made no progress and is not being searched.\<close>

definition parked :: "job_ref \<Rightarrow> manager \<Rightarrow> bool" where
  "parked r s =
     (r < next_job s \<and> r \<notin> set (metadata_queue s) \<and> r \<notin> set (search_queue s) \<and>
      depth_completed (jobs s r) = 0 \<and>
      (case search_frame s of None \<Rightarrow> True | Some (r', t, i) \<Rightarrow> r' \<noteq> r))"

text \<open>
  A summary whose depth map decreases from boundary 1000 to boundary 2000, and the manager
  after a job was submitted, fetched this summary, was dequeued for search and made its
  first call of \<^verbatim>\<open>search_query\<close>.
\<close>

definition skewed_stats :: "int \<Rightarrow> metadata_reply" where
  "skewed_stats td =
     G [Stats \<lparr> depthMap = Some (Map.empty(''1000'' \<mapsto> (5, 1000), ''2000'' \<mapsto> (3, 1200))),
               txcount = Some 1200, totalDepth = Some td \<rparr>]"

definition skewed_run :: "int \<Rightarrow> manager" where
  "skewed_run td =
     fold (exec (\<lambda>x. x))
       [NewSearch 0, MetadataLoop (skewed_stats td), SearchLoop, SearchQuery (Docs [([''aa''], [5])])]
       (manager_init (\<lambda>_. example_owner))"

section \<open>Properties\<close>

subsection \<open>Auxiliary facts\<close>

lemma upd_job_simps [simp]:
  "jobs (upd_job r f s) = (jobs s)(r := f (jobs s r))"
  "search_jobs (upd_job r f s) = search_jobs s"
  "metadata_queue (upd_job r f s) = metadata_queue s"
  "search_queue (upd_job r f s) = search_queue s"
  "cancel_thresh_txcount (upd_job r f s) = cancel_thresh_txcount s"
  "fetched_tx_cache (upd_job r f s) = fetched_tx_cache s"
  "next_job (upd_job r f s) = next_job s"
  "txs (upd_job r f s) = txs s"
  "next_tx (upd_job r f s) = next_tx s"
  "valjobs (upd_job r f s) = valjobs s"
  "search_frame (upd_job r f s) = search_frame s"
  "request_log (upd_job r f s) = request_log s"
  "callback_log (upd_job r f s) = callback_log s"
  "slept (upd_job r f s) = slept s"
  by (simp_all add: upd_job_def)

lemma set_failed_simps [simp]:
  "search_started (set_failed reason job)"
  "job_complete (set_failed reason job)"
  "search_success (set_failed reason job) = Some False"
  "exit_msg (set_failed reason job) = reason"
  "root_txid (set_failed reason job) = root_txid job"
  "valjob (set_failed reason job) = valjob job"
  "depth_completed (set_failed reason job) = depth_completed job"
  "total_depth (set_failed reason job) = total_depth job"
  "depth_map (set_failed reason job) = depth_map job"
  "waiting_to_cancel (set_failed reason job) = waiting_to_cancel job"
  "cancel_callback (set_failed reason job) = cancel_callback job"
  "fetch_retries (set_failed reason job) = fetch_retries job"
  by (simp_all add: set_failed_def)

lemma owner_frame [simp]:
  "owner_of (s\<lparr>metadata_queue := q\<rparr>) r = owner_of s r"
  "owner_of (s\<lparr>search_jobs := m\<rparr>) r = owner_of s r"
  "owner_of (s\<lparr>request_log := l\<rparr>) r = owner_of s r"
  "owner_finished (s\<lparr>metadata_queue := q\<rparr>) r = owner_finished s r"
  "owner_finished (s\<lparr>search_jobs := m\<rparr>) r = owner_finished s r"
  by (simp_all add: owner_of_def owner_finished_def)

lemmas example_defs = example_owner_def example_manager_def example_stats_def new_search_def
  manager_init_def GraphSearchJob_init_def ExpiringCache_def Transaction_def metadata_loop_def
  metadata_fetch_def fetch_metadata_def metadata_query_def owner_of_def owner_finished_def Let_def

lemma fetch_metadata_Inr:
  "fetch_metadata reply job = Inr job' \<Longrightarrow>
     \<exists>res. metadata_query reply = Inr (Some res) \<and>
       job' = job\<lparr>total_depth := totalDepth res, txn_count_total := txcount res,
                  depth_map := depthMap res\<rparr>"
  by (auto simp: fetch_metadata_def split: sum.splits option.splits py_exception.splits)

lemma metadata_fetch_complete_started:
  assumes "\<not> job_complete (jobs s r)" "job_complete (jobs (metadata_fetch reply r s) r)"
  shows "search_started (jobs (metadata_fetch reply r s) r) \<and>
         search_success (jobs (metadata_fetch reply r s) r) = Some False \<and>
         search_queue (metadata_fetch reply r s) = search_queue s"
  using assms
  by (auto simp: metadata_fetch_def Let_def dest!: fetch_metadata_Inr
           split: sum.splits option.splits py_exception.splits if_splits)

subsection \<open>The metadata stage\<close>

text \<open>
  C10. Every transition to Failed goes through \<open>set_failed\<close>, which sets the
  search-started flag whatever the stage. In particular, when an iteration of the
  metadata loop completes the job it has dequeued (owner finished, host not set, fetch
  error, retries exhausted, metadata error or low transaction count), the job is left
  started and unsuccessful although it was never put on the search queue.
\<close>

theorem failed_is_started:
  assumes "metadata_queue s = r # q"
    and "\<not> job_complete (jobs s r)"
    and "job_complete (jobs (metadata_loop reply s) r)"
  shows "search_started (set_failed reason job) \<and>
         search_started (jobs (metadata_loop reply s) r) \<and>
         search_success (jobs (metadata_loop reply s) r) = Some False \<and>
         search_queue (metadata_loop reply s) = search_queue s"
proof -
  let ?s1 = "s\<lparr>metadata_queue := q\<rparr>"
  let ?s2 = "?s1\<lparr>search_jobs := (search_jobs ?s1)(root_txid (jobs ?s1 r) \<mapsto> r)\<rparr>"
  have "search_started (jobs (metadata_loop reply s) r) \<and>
         search_success (jobs (metadata_loop reply s) r) = Some False \<and>
         search_queue (metadata_loop reply s) = search_queue s"
  proof (cases "search_jobs s (root_txid (jobs s r)) = None")
    case False
    with assms show ?thesis by (auto simp: metadata_loop_def)
  next
    case unregistered: True
    show ?thesis
    proof (cases "owner_finished ?s2 r \<or> slpdb_host (owner_of ?s2 r) = None
                  \<or> slpdb_host (owner_of ?s2 r) = Some []")
      case True
      with assms unregistered show ?thesis
        by (auto simp: metadata_loop_def Let_def)
    next
      case False
      with assms unregistered have eq: "metadata_loop reply s = metadata_fetch reply r ?s2"
        by (auto simp: metadata_loop_def Let_def)
      have "\<not> job_complete (jobs ?s2 r)" using assms by simp
      from metadata_fetch_complete_started[OF this, of reply] assms(3) show ?thesis
        unfolding eq by simp
    qed
  qed
  then show ?thesis by simp
qed

theorem failed_is_started_witness:
  "metadata_queue example_manager = [0] \<and>
   \<not> job_complete (jobs example_manager 0) \<and>
   \<not> search_started (jobs example_manager 0) \<and>
   job_complete (jobs (metadata_loop (example_stats (Some 3)) example_manager) 0) \<and>
   search_started (jobs (metadata_loop (example_stats (Some 3)) example_manager) 0) \<and>
   search_queue (metadata_loop (example_stats (Some 3)) example_manager) = []"
proof -
  have a1: "metadata_queue example_manager = 0 # []" by (simp add: example_defs)
  have a2: "\<not> job_complete (jobs example_manager 0)" by (simp add: example_defs)
  have a3: "job_complete (jobs (metadata_loop (example_stats (Some 3)) example_manager) 0)"
    by (simp add: example_defs)
  have a4: "\<not> search_started (jobs example_manager 0)" by (simp add: example_defs)
  have a5: "search_queue example_manager = []" by (simp add: example_defs)
  show ?thesis
    using failed_is_started[OF a1 a2 a3] a1 a2 a3 a4 a5 by simp
qed

text \<open>
  C4. After a successful metadata fetch, with the threshold at its value 20: a total
  count that is absent (null) fails the job with "metadata error"; a count of at most
  20, so 20 itself, fails it with "low txn count"; a larger count, so 21, puts the job
  on the search queue and leaves it incomplete.
\<close>

theorem admission_by_txcount:
  assumes "metadata_queue s = r # q"
    and "search_jobs s (root_txid (jobs s r)) = None"
    and "\<not> owner_finished s r"
    and "slpdb_host (owner_of s r) = Some h" and "h \<noteq> []"
    and "cancel_thresh_txcount s = 20"
    and "metadata_query reply = Inr (Some res)"
    and "s' = metadata_loop reply s"
  shows "(case txcount res of
            None \<Rightarrow> exit_msg (jobs s' r) = Some ''metadata error'' \<and> job_complete (jobs s' r)
                     \<and> search_success (jobs s' r) = Some False \<and> search_queue s' = search_queue s
          | Some n \<Rightarrow>
              if n \<le> 20
              then exit_msg (jobs s' r) = Some ''low txn count'' \<and> job_complete (jobs s' r)
                     \<and> search_success (jobs s' r) = Some False \<and> search_queue s' = search_queue s
              else search_queue s' = search_queue s @ [r]
                     \<and> job_complete (jobs s' r) = job_complete (jobs s r)
                     \<and> exit_msg (jobs s' r) = exit_msg (jobs s r))"
  using assms
  by (auto simp: metadata_loop_def metadata_fetch_def fetch_metadata_def Let_def
           split: option.splits)

theorem admission_by_txcount_witness:
  "exit_msg (jobs (metadata_loop (example_stats (Some 20)) example_manager) 0) = Some ''low txn count'' \<and>
   job_complete (jobs (metadata_loop (example_stats (Some 20)) example_manager) 0) \<and>
   search_queue (metadata_loop (example_stats (Some 20)) example_manager) = [] \<and>
   search_queue (metadata_loop (example_stats (Some 21)) example_manager) = [0] \<and>
   \<not> job_complete (jobs (metadata_loop (example_stats (Some 21)) example_manager) 0) \<and>
   exit_msg (jobs (metadata_loop (example_stats None) example_manager) 0) = Some ''metadata error'' \<and>
   job_complete (jobs (metadata_loop (example_stats None) example_manager) 0)"
proof -
  have a1: "metadata_queue example_manager = 0 # []" by (simp add: example_defs)
  have a2: "search_jobs example_manager (root_txid (jobs example_manager 0)) = None"
    by (simp add: example_defs)
  have a3: "\<not> owner_finished example_manager 0" by (simp add: example_defs)
  have a4: "slpdb_host (owner_of example_manager 0) = Some ''host''" by (simp add: example_defs)
  have a5: "''host'' \<noteq> []" by simp
  have a6: "cancel_thresh_txcount example_manager = 20" by (simp add: example_defs)
  have q: "\<And>n. metadata_query (example_stats n) =
             Inr (Some \<lparr> depthMap = Some example_depth_map, txcount = n,
                         totalDepth = Some 5 \<rparr>)"
    by (simp add: example_defs)
  have c: "\<not> job_complete (jobs example_manager 0)" by (simp add: example_defs)
  have e: "search_queue example_manager = []" by (simp add: example_defs)
  show ?thesis
    using admission_by_txcount[OF a1 a2 a3 a4 a5 a6 q[of "Some 20"] refl]
          admission_by_txcount[OF a1 a2 a3 a4 a5 a6 q[of "Some 21"] refl]
          admission_by_txcount[OF a1 a2 a3 a4 a5 a6 q[of "None"] refl] c e
    by simp
qed

text \<open>
  C7. When the metadata loop dequeues a job whose root id is already in the registry,
  the only change to the whole state is that the job has left the queue: no field of any
  job changes, no callback is called, the registry keeps its entry. When the root id is
  not in the registry, the iteration registers the dequeued job under it and leaves every
  other entry as it was. The registry is a dict, so it holds one job per root id.
\<close>

theorem duplicate_root_discarded:
  assumes "metadata_queue s = r # q"
  shows "(case search_jobs s (root_txid (jobs s r)) of
            Some r0 \<Rightarrow> metadata_loop reply s = s\<lparr>metadata_queue := q\<rparr>
          | None \<Rightarrow>
              search_jobs (metadata_loop reply s) = (search_jobs s)(root_txid (jobs s r) \<mapsto> r))"
  using assms
  by (auto simp: metadata_loop_def metadata_fetch_def Let_def
           split: option.splits sum.splits py_exception.splits)

theorem duplicate_root_discarded_witness:
  "metadata_queue (metadata_loop (example_stats (Some 21)) (fst (new_search 0 example_manager))) = [1] \<and>
   search_jobs (metadata_loop (example_stats (Some 21)) (fst (new_search 0 example_manager))) ''ab'' = Some 0 \<and>
   metadata_loop NoG (metadata_loop (example_stats (Some 21)) (fst (new_search 0 example_manager)))
     = (metadata_loop (example_stats (Some 21)) (fst (new_search 0 example_manager)))\<lparr>metadata_queue := []\<rparr> \<and>
   search_jobs (metadata_loop NoG example_manager) = (Map.empty(''ab'' \<mapsto> 0))"
proof -
  let ?s = "metadata_loop (example_stats (Some 21)) (fst (new_search 0 example_manager))"
  have a1: "metadata_queue ?s = 1 # []" by (simp add: example_defs)
  have a2: "search_jobs ?s (root_txid (jobs ?s 1)) = Some 0" by (simp add: example_defs)
  have a3: "search_jobs ?s ''ab'' = Some 0" by (simp add: example_defs)
  have b1: "metadata_queue example_manager = 0 # []" by (simp add: example_defs)
  have b2: "search_jobs example_manager (root_txid (jobs example_manager 0)) = None"
    by (simp add: example_defs)
  have b3: "root_txid (jobs example_manager 0) = ''ab''" by (simp add: example_defs)
  have b4: "search_jobs example_manager = Map.empty" by (simp add: example_defs)
  show ?thesis
    using duplicate_root_discarded[OF a1, of NoG] duplicate_root_discarded[OF b1, of NoG]
      a1 a2 a3 b2 b3 b4
    by simp
qed

lemma new_search_simps [simp]:
  "search_jobs (fst (new_search v s)) = search_jobs s"
  "metadata_queue (fst (new_search v s)) = metadata_queue s @ [next_job s]"
  "search_queue (fst (new_search v s)) = search_queue s"
  "next_job (fst (new_search v s)) = Suc (next_job s)"
  "jobs (fst (new_search v s)) = (jobs s)(next_job s := GraphSearchJob_init (valjob_root_txid (valjobs s v)) v)"
  "valjobs (fst (new_search v s)) = valjobs s"
  "search_frame (fst (new_search v s)) = search_frame s"
  "request_log (fst (new_search v s)) = request_log s"
  "callback_log (fst (new_search v s)) = callback_log s"
  "txs (fst (new_search v s)) = txs s"
  "next_tx (fst (new_search v s)) = next_tx s"
  "fetched_tx_cache (fst (new_search v s)) = fetched_tx_cache s"
  "cancel_thresh_txcount (fst (new_search v s)) = cancel_thresh_txcount s"
  by (simp_all add: new_search_def Let_def)

lemma restart_callback_simps [simp]:
  "search_jobs (restart_callback r s) = (search_jobs s)(root_txid (jobs s r) := None)"
  "metadata_queue (restart_callback r s) = metadata_queue s @ [next_job s]"
  "search_queue (restart_callback r s) = search_queue s"
  "next_job (restart_callback r s) = Suc (next_job s)"
  "jobs (restart_callback r s) =
     (jobs s)(next_job s := GraphSearchJob_init (valjob_root_txid (owner_of s r)) (valjob (jobs s r)))"
  "valjobs (restart_callback r s) = valjobs s"
  "search_frame (restart_callback r s) = search_frame s"
  "request_log (restart_callback r s) = request_log s"
  "callback_log (restart_callback r s) = callback_log s"
  "txs (restart_callback r s) = txs s"
  "next_tx (restart_callback r s) = next_tx s"
  "fetched_tx_cache (restart_callback r s) = fetched_tx_cache s"
  by (simp_all add: restart_callback_def Let_def owner_of_def)

lemma call_callback_simps [simp]:
  "callback_log (call_callback cb r s) = callback_log s @ [(cb, r)]"
  "search_queue (call_callback cb r s) = search_queue s"
  "valjobs (call_callback cb r s) = valjobs s"
  "search_frame (call_callback cb r s) = search_frame s"
  "request_log (call_callback cb r s) = request_log s"
  "txs (call_callback cb r s) = txs s"
  "next_tx (call_callback cb r s) = next_tx s"
  "fetched_tx_cache (call_callback cb r s) = fetched_tx_cache s"
  "search_jobs (call_callback cb r s) =
     (case cb of RestartCallback \<Rightarrow> (search_jobs s)(root_txid (jobs s r) := None)
               | ExternalCallback n \<Rightarrow> search_jobs s)"
  "metadata_queue (call_callback cb r s) =
     (case cb of RestartCallback \<Rightarrow> metadata_queue s @ [next_job s]
               | ExternalCallback n \<Rightarrow> metadata_queue s)"
  "next_job (call_callback cb r s) =
     (case cb of RestartCallback \<Rightarrow> Suc (next_job s) | ExternalCallback n \<Rightarrow> next_job s)"
  "jobs (call_callback cb r s) =
     (case cb of
        RestartCallback \<Rightarrow>
          (jobs s)(next_job s := GraphSearchJob_init (valjob_root_txid (owner_of s r)) (valjob (jobs s r)))
      | ExternalCallback n \<Rightarrow> jobs s)"
  by (simp_all add: call_callback_def Let_def owner_of_def split: callback.splits)

lemmas example_defs2 = example_admitted_def example_failed_def example_searching_def
  search_loop_def example_defs

lemma no_search_data_fetch:
  "no_search_data reply \<Longrightarrow> \<exists>m. fetch_metadata reply job = Inl (SlpdbErrorNoSearchData m)"
  by (auto simp: no_search_data_def fetch_metadata_def split: sum.splits option.splits py_exception.splits)

lemma metadata_loop_empty: "metadata_queue s = [] \<Longrightarrow> metadata_loop reply s = s"
  by (simp add: metadata_loop_def)

lemma fold_metadata_loop_empty: "metadata_queue s = [] \<Longrightarrow> fold metadata_loop replies s = s"
  by (induction replies) (simp_all add: metadata_loop_empty)

lemma first_fetch_no_data:
  assumes "metadata_queue s = [r]"
    and "search_jobs s (root_txid (jobs s r)) = None"
    and "\<not> owner_finished s r"
    and "slpdb_host (owner_of s r) = Some h" and "h \<noteq> []"
    and "fetch_retries (jobs s r) \<le> 10"
    and "no_search_data reply"
  shows "metadata_loop reply s =
           s\<lparr>metadata_queue := [r],
             search_jobs := (search_jobs s)(root_txid (jobs s r) \<mapsto> r),
             request_log := request_log s @ [MetadataGet h (root_txid (jobs s r))],
             slept := slept s + 10,
             jobs := (jobs s)(r := (jobs s r)\<lparr>fetch_retries := fetch_retries (jobs s r) + 1\<rparr>)\<rparr>"
proof -
  from no_search_data_fetch[OF assms(7)] obtain m where
    "fetch_metadata reply (jobs s r) = Inl (SlpdbErrorNoSearchData m)" by blast
  with assms show ?thesis
    by (simp add: metadata_loop_def metadata_fetch_def Let_def upd_job_def)
qed

subsection \<open>The retry of the metadata fetch\<close>

text \<open>
  C1. What the code does when the fetch finds no data: the job alone in the queue, not
  yet registered, its owner alive and the host set, with at most 10 retries so far. The
  first iteration registers the job, sends one request, counts one retry, sleeps and puts
  the job back on the queue. The second iteration finds the job's root id in the registry,
  where the first iteration has put it, and drops the job. However many iterations
  follow and whatever the back end would answer, exactly one request was sent, the queue
  is empty, and the job is as it was but for its retry counter: it is not complete and has
  no failure message.
\<close>

theorem retry_is_discarded:
  assumes "metadata_queue s = [r]"
    and "search_jobs s (root_txid (jobs s r)) = None"
    and "\<not> owner_finished s r"
    and "slpdb_host (owner_of s r) = Some h" and "h \<noteq> []"
    and "fetch_retries (jobs s r) \<le> 10"
    and "no_search_data reply1"
    and "s' = fold metadata_loop (reply1 # reply2 # replies) s"
  shows "request_log s' = request_log s @ [MetadataGet h (root_txid (jobs s r))] \<and>
         metadata_queue s' = [] \<and> search_queue s' = search_queue s \<and>
         jobs s' r = (jobs s r)\<lparr>fetch_retries := fetch_retries (jobs s r) + 1\<rparr> \<and>
         job_complete (jobs s' r) = job_complete (jobs s r) \<and>
         exit_msg (jobs s' r) = exit_msg (jobs s r)"
proof -
  define t where "t = s\<lparr>metadata_queue := [r],
             search_jobs := (search_jobs s)(root_txid (jobs s r) \<mapsto> r),
             request_log := request_log s @ [MetadataGet h (root_txid (jobs s r))],
             slept := slept s + 10,
             jobs := (jobs s)(r := (jobs s r)\<lparr>fetch_retries := fetch_retries (jobs s r) + 1\<rparr>)\<rparr>"
  have s1: "metadata_loop reply1 s = t"
    unfolding t_def using assms(1-7) by (rule first_fetch_no_data)
  have s2: "metadata_loop reply2 t = t\<lparr>metadata_queue := []\<rparr>"
    by (simp add: t_def metadata_loop_def)
  have "fold metadata_loop replies (t\<lparr>metadata_queue := []\<rparr>) = t\<lparr>metadata_queue := []\<rparr>"
    by (rule fold_metadata_loop_empty) simp
  then have "s' = t\<lparr>metadata_queue := []\<rparr>"
    using assms(8) s1 s2 by simp
  then show ?thesis by (simp add: t_def)
qed

theorem retry_is_discarded_witness:
  "request_log (fold metadata_loop (replicate 12 NoG) example_manager) = [MetadataGet ''host'' ''ab''] \<and>
   metadata_queue (fold metadata_loop (replicate 12 NoG) example_manager) = [] \<and>
   \<not> job_complete (jobs (fold metadata_loop (replicate 12 NoG) example_manager) 0) \<and>
   exit_msg (jobs (fold metadata_loop (replicate 12 NoG) example_manager) 0) = None \<and>
   fetch_retries (jobs (fold metadata_loop (replicate 12 NoG) example_manager) 0) = 1"
proof -
  have a1: "metadata_queue example_manager = [0]" by (simp add: example_defs)
  have a2: "search_jobs example_manager (root_txid (jobs example_manager 0)) = None"
    by (simp add: example_defs)
  have a3: "\<not> owner_finished example_manager 0" by (simp add: example_defs)
  have a4: "slpdb_host (owner_of example_manager 0) = Some ''host''" by (simp add: example_defs)
  have a5: "''host'' \<noteq> []" by simp
  have a6: "fetch_retries (jobs example_manager 0) \<le> 10" by (simp add: example_defs)
  have a7: "no_search_data NoG" by (simp add: no_search_data_def metadata_query_def)
  have a8: "fold metadata_loop (replicate 12 NoG) example_manager
              = fold metadata_loop (NoG # NoG # replicate 10 NoG) example_manager"
    by (simp add: numeral_eq_Suc)
  have b: "request_log example_manager = []" "root_txid (jobs example_manager 0) = ''ab''"
    "\<not> job_complete (jobs example_manager 0)" "exit_msg (jobs example_manager 0) = None"
    "fetch_retries (jobs example_manager 0) = 0"
    by (simp_all add: example_defs)
  show ?thesis
    using retry_is_discarded[OF a1 a2 a3 a4 a5 a6 a7 a8] b by simp
qed

subsection \<open>Restart and cancellation\<close>

text \<open>
  C9. Calling the restart callback on a job records the call, removes the job's root id
  from the registry and submits a new job for the same owner (a new object at the end of
  the metadata queue), leaving the job itself as it was. \<open>restart_search\<close> on a
  complete job is exactly that call, made at once, with no cancellation request. On a job
  that is not complete it is exactly the cancellation request with that callback and the
  reason "job restarted": the reason is set, the job waits to be cancelled and stays
  incomplete, the callback is registered unless an earlier request is already pending,
  and neither the registry nor the queue nor the callback log changes.
\<close>

theorem restart_search_effect:
  assumes "r < next_job s"
  shows "(let s' = call_callback RestartCallback r s in
            callback_log s' = callback_log s @ [(RestartCallback, r)] \<and>
            search_jobs s' = (search_jobs s)(root_txid (jobs s r) := None) \<and>
            metadata_queue s' = metadata_queue s @ [next_job s] \<and>
            jobs s' (next_job s) =
              GraphSearchJob_init (valjob_root_txid (owner_of s r)) (valjob (jobs s r)) \<and>
            jobs s' r = jobs s r) \<and>
         (let s' = restart_search r s in
            if job_complete (jobs s r)
            then s' = call_callback RestartCallback r s
            else s' = upd_job r (sched_cancel (Some RestartCallback) ''job restarted'') s \<and>
                 exit_msg (jobs s' r) = Some ''job restarted'' \<and>
                 waiting_to_cancel (jobs s' r) \<and> \<not> job_complete (jobs s' r) \<and>
                 cancel_callback (jobs s' r) =
                   (if waiting_to_cancel (jobs s r) then cancel_callback (jobs s r)
                    else Some RestartCallback) \<and>
                 search_jobs s' = search_jobs s \<and> metadata_queue s' = metadata_queue s \<and>
                 next_job s' = next_job s \<and> callback_log s' = callback_log s)"
  using assms by (simp add: Let_def restart_search_def sched_cancel_def)

theorem restart_search_effect_witness:
  "0 < next_job example_failed \<and> job_complete (jobs example_failed 0) \<and>
   search_jobs example_failed ''ab'' = Some 0 \<and>
   search_jobs (restart_search 0 example_failed) ''ab'' = None \<and>
   metadata_queue (restart_search 0 example_failed) = [1] \<and>
   jobs (restart_search 0 example_failed) 1 = GraphSearchJob_init ''ab'' 0 \<and>
   jobs (restart_search 0 example_failed) 0 = jobs example_failed 0 \<and>
   0 < next_job example_admitted \<and> \<not> job_complete (jobs example_admitted 0) \<and>
   exit_msg (jobs (restart_search 0 example_admitted) 0) = Some ''job restarted'' \<and>
   waiting_to_cancel (jobs (restart_search 0 example_admitted) 0) \<and>
   cancel_callback (jobs (restart_search 0 example_admitted) 0) = Some RestartCallback \<and>
   search_jobs (restart_search 0 example_admitted) ''ab'' = Some 0 \<and>
   callback_log (restart_search 0 example_admitted) = []"
proof -
  have a: "0 < next_job example_failed" by (simp add: example_defs2)
  have b: "0 < next_job example_admitted" by (simp add: example_defs2)
  have f: "job_complete (jobs example_failed 0)" "search_jobs example_failed ''ab'' = Some 0"
    "root_txid (jobs example_failed 0) = ''ab''" "metadata_queue example_failed = []"
    "next_job example_failed = 1" "valjob (jobs example_failed 0) = 0"
    "valjob_root_txid (owner_of example_failed 0) = ''ab''"
    by (simp_all add: example_defs2)
  have g: "\<not> job_complete (jobs example_admitted 0)" "\<not> waiting_to_cancel (jobs example_admitted 0)"
    "search_jobs example_admitted ''ab'' = Some 0" "callback_log example_admitted = []"
    by (simp_all add: example_defs2)
  show ?thesis
    using restart_search_effect[OF a] restart_search_effect[OF b] a b f g
    by (simp add: Let_def sched_cancel_def)
qed

lemma callback_log_metadata_fetch [simp]:
  "callback_log (metadata_fetch reply r s) = callback_log s"
  by (auto simp: metadata_fetch_def Let_def split: sum.splits option.splits py_exception.splits)

lemma callback_log_metadata_loop [simp]:
  "callback_log (metadata_loop reply s) = callback_log s"
  by (auto simp: metadata_loop_def Let_def split: list.splits)

lemma callback_log_search_loop [simp]:
  "callback_log (search_loop s) = callback_log s"
  by (auto simp: search_loop_def Let_def split: option.splits list.splits)

lemma flag_metadata_fetch [simp]:
  "waiting_to_cancel (jobs (metadata_fetch reply r s) r') = waiting_to_cancel (jobs s r')"
  by (auto simp: metadata_fetch_def Let_def dest!: fetch_metadata_Inr
           split: sum.splits option.splits py_exception.splits)

lemma flag_metadata_loop [simp]:
  "waiting_to_cancel (jobs (metadata_loop reply s) r') = waiting_to_cancel (jobs s r')"
  by (auto simp: metadata_loop_def Let_def split: list.splits)

lemma flag_search_loop [simp]:
  "waiting_to_cancel (jobs (search_loop s) r') = waiting_to_cancel (jobs s r')"
  by (auto simp: search_loop_def Let_def split: option.splits list.splits)

lemma example_pending_search_facts:
  "search_frame example_pending_search = None"
  "search_queue example_pending_search = [0]"
  "waiting_to_cancel (jobs example_pending_search 0)"
  "\<not> job_complete (jobs example_pending_search 0)"
  "cancel_callback (jobs example_pending_search 0) = Some (ExternalCallback 7)"
  by (simp_all add: example_pending_search_def example_defs2 sched_cancel_def)





lemma str_1000: "str 1000 = ''1000''"
  by (simp add: str.simps digit_def)

lemma str_2000: "str 2000 = ''2000''"
  by (simp add: str.simps digit_def)

lemma cache_only_refl [simp]: "cache_only s s"
  unfolding cache_only_def
  by (rule exI[of _ "txs s"], rule exI[of _ "next_tx s"], rule exI[of _ "fetched_tx_cache s"]) simp

lemma cache_only_trans:
  assumes "cache_only s s'" and "cache_only s' s''"
  shows "cache_only s s''"
proof -
  from assms(1) obtain t n c where a: "s' = s\<lparr>txs := t, next_tx := n, fetched_tx_cache := c\<rparr>"
    unfolding cache_only_def by blast
  from assms(2) obtain t' n' c' where
    b: "s'' = s'\<lparr>txs := t', next_tx := n', fetched_tx_cache := c'\<rparr>"
    unfolding cache_only_def by blast
  from a b have "s'' = s\<lparr>txs := t', next_tx := n', fetched_tx_cache := c'\<rparr>" by simp
  then show ?thesis unfolding cache_only_def by blast
qed

lemma cache_only_fields:
  assumes "cache_only s s'"
  shows "jobs s' = jobs s" "valjobs s' = valjobs s" "request_log s' = request_log s"
    "callback_log s' = callback_log s" "metadata_queue s' = metadata_queue s"
    "search_queue s' = search_queue s" "search_jobs s' = search_jobs s"
    "next_job s' = next_job s" "search_frame s' = search_frame s"
    "cancel_thresh_txcount s' = cancel_thresh_txcount s" "slept s' = slept s"
  using assms unfolding cache_only_def by auto

lemma tx_cache_put_cache_only: "tx_cache_put tx_hash tx t s = Inr s' \<Longrightarrow> cache_only s s'"
  by (auto simp: tx_cache_put_def cache_only_def Let_def split: option.splits if_splits)

lemma tx_cache_put_all_cache_only:
  "tx_cache_put_all tx_hash ts s = (s', e) \<Longrightarrow> cache_only s s'"
proof (induction ts arbitrary: s)
  case Nil
  then show ?case by simp
next
  case (Cons t ts)
  show ?case
  proof (cases "tx_cache_put tx_hash (Some t) None s")
    case (Inl x)
    with Cons.prems show ?thesis by simp
  next
    case (Inr s1)
    with Cons.prems have "tx_cache_put_all tx_hash ts s1 = (s', e)" by simp
    then have "cache_only s1 s'" by (rule Cons.IH)
    with tx_cache_put_cache_only[OF Inr] show ?thesis by (rule cache_only_trans)
  qed
qed

lemma tx_cache_put_all_ok:
  "\<forall>t\<in>set ts. raw t \<noteq> [] \<Longrightarrow> snd (tx_cache_put_all tx_hash ts s) = None"
proof (induction ts arbitrary: s)
  case Nil
  then show ?case by simp
next
  case (Cons t ts)
  then obtain s1 where "tx_cache_put tx_hash (Some t) None s = Inr s1"
    by (auto simp: tx_cache_put_def Let_def)
  with Cons show ?case by simp
qed

lemma search_result_ok:
  assumes "\<forall>tx\<in>set txns. snd tx \<noteq> []"
    and "total_depth (jobs s r) = Some td"
    and "search_result tx_hash txns r i cur qd s = (s', out)"
  shows "depth_completed (jobs s' r) = (if txns \<noteq> [] then cur else depth_completed (jobs s r)) \<and>
         request_log s' = request_log s \<and>
         (if td \<le> depth_completed (jobs s' r)
          then out = Return \<and> job_complete (jobs s' r) \<and> search_success (jobs s' r) = Some True
          else out = Recurse (map (\<lambda>tx. tx_hash (snd tx)) (filter (\<lambda>tx. fst tx = qd) txns)) (i + 1)
               \<and> job_complete (jobs s' r) = job_complete (jobs s r)
               \<and> search_success (jobs s' r) = search_success (jobs s r))"
proof -
  let ?s1 = "upd_job r (\<lambda>job. job\<lparr>txn_count_progress := txn_count_progress job + length txns\<rparr>) s"
  obtain s2 e where p: "tx_cache_put_all tx_hash (map (\<lambda>tx. Transaction (snd tx)) txns) ?s1 = (s2, e)"
    by (cases "tx_cache_put_all tx_hash (map (\<lambda>tx. Transaction (snd tx)) txns) ?s1")
  have "\<forall>t\<in>set (map (\<lambda>tx. Transaction (snd tx)) txns). raw t \<noteq> []"
    using assms(1) by (auto simp: Transaction_def)
  from tx_cache_put_all_ok[OF this, of tx_hash ?s1] p have e: "e = None" by simp
  note f = cache_only_fields[OF tx_cache_put_all_cache_only[OF p]]
  show ?thesis
    using assms(2,3) p e f
    by (auto simp: search_result_def Let_def set_success_def split: if_splits)
qed

lemma search_result_recurse:
  assumes "search_result tx_hash txns r i cur qd s = (s', Recurse f i')"
  shows "f = map (\<lambda>tx. tx_hash (snd tx)) (filter (\<lambda>tx. fst tx = qd) txns) \<and> i' = i + 1"
  using assms
  by (auto simp: search_result_def Let_def split: prod.splits option.splits if_splits)

lemma search_result_request_log:
  assumes "search_result tx_hash txns r i cur qd s = (s', out)"
  shows "request_log s' = request_log s"
proof -
  let ?s1 = "upd_job r (\<lambda>job. job\<lparr>txn_count_progress := txn_count_progress job + length txns\<rparr>) s"
  obtain s2 e where p: "tx_cache_put_all tx_hash (map (\<lambda>tx. Transaction (snd tx)) txns) ?s1 = (s2, e)"
    by (cases "tx_cache_put_all tx_hash (map (\<lambda>tx. Transaction (snd tx)) txns) ?s1")
  note f = cache_only_fields[OF tx_cache_put_all_cache_only[OF p]]
  show ?thesis
    using assms p f
    by (auto simp: search_result_def Let_def split: option.splits if_splits)
qed

lemmas search_defs = search_query_def search_request_def search_result_def query_depth_of_def
  tx_cache_put_def cache_put_def set_success_def

lemma example_searching_facts:
  "\<not> waiting_to_cancel (jobs example_searching 0)"
  "\<not> owner_finished example_searching 0"
  "depth_map (jobs example_searching 0) = Some example_depth_map"
  "slpdb_host (owner_of example_searching 0) = Some ''host''"
  "total_depth (jobs example_searching 0) = Some 5"
  "depth_completed (jobs example_searching 0) = 0"
  "root_txid (jobs example_searching 0) = ''ab''"
  "request_log example_searching = [MetadataGet ''host'' ''ab'']"
  "\<not> job_complete (jobs example_searching 0)"
  by (simp_all add: example_defs2)

lemma example_depth_map_facts:
  "example_depth_map (str ((0 + 1) * 1000)) = Some (3, 1000)"
  "example_depth_map (str ((1 + 1) * 1000)) = Some (5, 1200)"
  "example_depth_map (str (1 * 1000)) = Some (3, 1000)"
  by (simp_all add: example_depth_map_def str_1000 str_2000)

lemma example_round0_state:
  "\<not> waiting_to_cancel (jobs (fst example_round0) 0)"
  "\<not> owner_finished (fst example_round0) 0"
  "depth_map (jobs (fst example_round0) 0) = Some example_depth_map"
  "slpdb_host (owner_of (fst example_round0) 0) = Some ''host''"
  "total_depth (jobs (fst example_round0) 0) = Some 5"
  "request_log (fst example_round0) = [MetadataGet ''host'' ''ab'', SearchPost ''host'' [''ab''] 3]"
  by (simp_all add: example_round0_def example_reply0_def search_defs example_defs2
      example_depth_map_def str_1000 str_2000 sched_cancel_def)

lemma map_of_filter_neq: "map_of (filter (\<lambda>(k', _). k' \<noteq> k) xs) k = None"
  by (induction xs) auto

lemma map_of_drop_None: "map_of xs k = None \<Longrightarrow> map_of (drop n xs) k = None"
  by (auto simp: map_of_eq_None_iff dest: in_set_dropD)

lemma cache_get_put: "cache_get (cache_put c k v) k = Some v"
  by (simp add: cache_get_def cache_put_def Let_def map_of_filter_neq map_of_drop_None map_add_def)

subsection \<open>The transaction cache\<close>

text \<open>
  C8. A put of a transaction with non-empty raw bytes succeeds. A get under the same id
  right after it returns a new object whose raw bytes are those that were put. Whatever is
  then done to that object, a further get under the id returns yet another object, again
  with the raw bytes that were put: the cached entry is not reachable through the copies.
\<close>

theorem cache_round_trip:
  assumes "raw t \<noteq> []"
    and "k = (case txid of None \<Rightarrow> tx_hash (raw t) | Some i \<Rightarrow> if i = [] then tx_hash (raw t) else i)"
  shows "\<exists>s1 s2 p. tx_cache_put tx_hash (Some t) txid s = Inr s1 \<and>
           tx_cache_get k s1 = (s2, Some p) \<and> raw (txs s2 p) = raw t \<and>
           (\<forall>f. \<exists>s3 q. tx_cache_get k (s2\<lparr>txs := (txs s2)(p := f (txs s2 p))\<rparr>) = (s3, Some q) \<and>
                  q \<noteq> p \<and> raw (txs s3 q) = raw t)"
proof -
  let ?c = "next_tx s"
  let ?s1 = "s\<lparr>txs := (txs s)(?c := Transaction (raw t)), next_tx := Suc ?c,
               fetched_tx_cache := cache_put (fetched_tx_cache s) k ?c\<rparr>"
  let ?p = "Suc ?c"
  let ?s2 = "?s1\<lparr>txs := (txs ?s1)(?p := Transaction (raw t)), next_tx := Suc ?p\<rparr>"
  have put: "tx_cache_put tx_hash (Some t) txid s = Inr ?s1"
    using assms by (simp add: tx_cache_put_def Let_def)
  have get: "tx_cache_get k ?s1 = (?s2, Some ?p)"
    using assms(1) by (simp add: tx_cache_get_def cache_get_put Let_def Transaction_def)
  have raw: "raw (txs ?s2 ?p) = raw t" by (simp add: Transaction_def)
  have again: "\<exists>s3 q. tx_cache_get k (?s2\<lparr>txs := (txs ?s2)(?p := f (txs ?s2 ?p))\<rparr>) = (s3, Some q) \<and>
                  q \<noteq> ?p \<and> raw (txs s3 q) = raw t" for f
    using assms(1) by (simp add: tx_cache_get_def cache_get_put Let_def Transaction_def)
  from put get raw again show ?thesis by blast
qed

theorem cache_round_trip_witness:
  "raw (Transaction ''0100'') \<noteq> [] \<and>
   (\<exists>s1 s2 p. tx_cache_put (\<lambda>x. x) (Some (Transaction ''0100'')) None example_manager = Inr s1 \<and>
           tx_cache_get ''0100'' s1 = (s2, Some p) \<and> raw (txs s2 p) = ''0100'' \<and>
           (\<forall>f. \<exists>s3 q. tx_cache_get ''0100'' (s2\<lparr>txs := (txs s2)(p := f (txs s2 p))\<rparr>) = (s3, Some q) \<and>
                  q \<noteq> p \<and> raw (txs s3 q) = ''0100''))"
proof -
  have a: "raw (Transaction ''0100'') \<noteq> []" by (simp add: Transaction_def)
  have b: "''0100'' = (case None :: txid option of None \<Rightarrow> (\<lambda>x. x) (raw (Transaction ''0100''))
                        | Some i \<Rightarrow> if i = [] then (\<lambda>x. x) (raw (Transaction ''0100'')) else i)"
    by (simp add: Transaction_def)
  have c: "raw (Transaction ''0100'') = ''0100''" by (simp add: Transaction_def)
  show ?thesis
    using cache_round_trip[where tx_hash = "\<lambda>x. x" and t = "Transaction ''0100''"
        and txid = None and k = "''0100''" and s = example_manager, OF a b] a c
    by simp
qed

subsection \<open>One chunk of the traversal\<close>

lemma search_query_frame_step:
  assumes "search_frame s = Some (r, txids, i)"
    and "search_query tx_hash reply r txids i s = (s', out)"
  shows "search_query_frame tx_hash reply s =
           (case out of
              Return \<Rightarrow> s'\<lparr>search_frame := None\<rparr>
            | Recurse txids' i' \<Rightarrow> s'\<lparr>search_frame := Some (r, txids', i')\<rparr>
            | Raise e \<Rightarrow> (upd_job r (set_failed (Some (str_exc e))) s')\<lparr>search_frame := None\<rparr>)"
  using assms by (simp add: search_query_frame_def split: outcome.splits)

lemma example_driven0_eq:
  "example_driven0 = (fst example_round0)\<lparr>search_frame := Some (0, [''bb''], 1)\<rparr>"
proof -
  have f: "search_frame example_searching = Some (0, [], 0)" by (simp add: example_defs2)
  have o: "snd example_round0 = Recurse [''bb''] 1"
    by (simp add: example_round0_def example_reply0_def search_defs example_defs2
        example_depth_map_def str_1000 str_2000)
  have q: "search_query (\<lambda>x. x) example_reply0 0 [] 0 example_searching
             = (fst example_round0, Recurse [''bb''] 1)"
    using o by (simp add: example_round0_def prod_eq_iff)
  from search_query_frame_step[OF f q] show ?thesis by (simp add: example_driven0_def)
qed

lemma example_driven0_state:
  "\<not> waiting_to_cancel (jobs example_driven0 0)"
  "\<not> owner_finished example_driven0 0"
  "depth_map (jobs example_driven0 0) = Some example_depth_map"
  "slpdb_host (owner_of example_driven0 0) = Some ''host''"
  "total_depth (jobs example_driven0 0) = Some 5"
  "request_log example_driven0 = [MetadataGet ''host'' ''ab'', SearchPost ''host'' [''ab''] 3]"
  "search_frame example_driven0 = Some (0, [''bb''], 1)"
  using example_round0_state
  by (simp_all add: example_driven0_eq owner_of_def owner_finished_def)

text \<open>
  C5. A call of \<open>search_query\<close> that gets past its checkpoints, finds its boundary
  in the depth map, sends its request and stores every transaction of the answer (each
  has raw bytes; the total depth is a number): if the answer held at least one
  transaction, the depth completed is now the depth at this chunk's boundary, otherwise it
  is what it was. Then, if and only if the depth completed has reached the total depth,
  the job is set successful and the call returns, and the search thread has no call
  pending; otherwise the job is left incomplete and the call recurses with the next chunk
  index: when the search thread makes this call, the call it has pending afterwards is
  the one for the same job with the next chunk index.
\<close>

theorem chunk_round_progress:
  assumes "\<not> waiting_to_cancel (jobs s r)" and "\<not> owner_finished s r"
    and "depth_map (jobs s r) = Some dm"
    and "dm (str ((i + 1) * 1000)) = Some (cur, cnt)"
    and "query_depth_of dm i cur = Inr qd"
    and "slpdb_host (owner_of s r) = Some host"
    and "txns = zip (concat (map snd g)) (concat (map fst g))"
    and "\<forall>tx\<in>set txns. snd tx \<noteq> []"
    and "total_depth (jobs s r) = Some td"
    and "search_query tx_hash (Docs g) r txids i s = (s', out)"
  shows "depth_completed (jobs s' r) = (if txns \<noteq> [] then cur else depth_completed (jobs s r)) \<and>
         (if td \<le> depth_completed (jobs s' r)
          then out = Return \<and> job_complete (jobs s' r) \<and> search_success (jobs s' r) = Some True \<and>
               (search_frame s = Some (r, txids, i) \<longrightarrow>
                  search_query_frame tx_hash (Docs g) s = s'\<lparr>search_frame := None\<rparr>)
          else (\<exists>frontier. out = Recurse frontier (i + 1) \<and>
                  (search_frame s = Some (r, txids, i) \<longrightarrow>
                     search_query_frame tx_hash (Docs g) s =
                       s'\<lparr>search_frame := Some (r, frontier, i + 1)\<rparr>))
               \<and> job_complete (jobs s' r) = job_complete (jobs s r)
               \<and> search_success (jobs s' r) = search_success (jobs s r))"
proof -
  let ?txids = "if i = 0 then [root_txid (jobs s r)] else txids"
  let ?s1 = "upd_job r (\<lambda>job. job\<lparr>depth_current_query := Some cur\<rparr>) s"
  let ?s2 = "upd_job r (\<lambda>job. job\<lparr>last_search_url := SearchUrl host ?txids qd\<rparr>) ?s1"
  let ?s3 = "?s2\<lparr>request_log := request_log ?s2 @ [SearchPost host ?txids qd]\<rparr>"
  have q: "search_query tx_hash (Docs g) r txids i s = search_result tx_hash txns r i cur qd ?s3"
    using assms(1-7)
    by (simp add: search_query_def search_request_def Let_def owner_of_def)
  have td: "total_depth (jobs ?s3 r) = Some td" using assms(9) by simp
  have round: "depth_completed (jobs s' r) = (if txns \<noteq> [] then cur else depth_completed (jobs s r)) \<and>
         (if td \<le> depth_completed (jobs s' r)
          then out = Return \<and> job_complete (jobs s' r) \<and> search_success (jobs s' r) = Some True
          else (\<exists>frontier. out = Recurse frontier (i + 1))
               \<and> job_complete (jobs s' r) = job_complete (jobs s r)
               \<and> search_success (jobs s' r) = search_success (jobs s r))"
    using search_result_ok[OF assms(8) td, of tx_hash i cur qd s' out] assms(10) q
    by (auto split: if_splits)
  show ?thesis
  proof (cases "td \<le> depth_completed (jobs s' r)")
    case True
    with round have o: "out = Return" by simp
    have "search_frame s = Some (r, txids, i) \<Longrightarrow>
            search_query_frame tx_hash (Docs g) s = s'\<lparr>search_frame := None\<rparr>"
      using search_query_frame_step[OF _ assms(10)] o by simp
    with round True show ?thesis by simp
  next
    case False
    with round obtain f where o: "out = Recurse f (i + 1)" by auto
    have "search_frame s = Some (r, txids, i) \<Longrightarrow>
            search_query_frame tx_hash (Docs g) s = s'\<lparr>search_frame := Some (r, f, i + 1)\<rparr>"
      using search_query_frame_step[OF _ assms(10)] o by simp
    with o have "\<exists>frontier. out = Recurse frontier (i + 1) \<and>
                  (search_frame s = Some (r, txids, i) \<longrightarrow>
                     search_query_frame tx_hash (Docs g) s =
                       s'\<lparr>search_frame := Some (r, frontier, i + 1)\<rparr>)"
      by blast
    with round False show ?thesis by simp
  qed
qed

theorem chunk_round_progress_witness:
  "search_frame example_searching = Some (0, [], 0) \<and>
   depth_completed (jobs example_searching 0) = 0 \<and>
   depth_completed (jobs example_driven0 0) = 3 \<and>
   (\<exists>frontier. search_frame example_driven0 = Some (0, frontier, 1)) \<and>
   \<not> job_complete (jobs example_driven0 0) \<and>
   depth_completed (jobs (search_query_frame (\<lambda>x. x) (Docs []) example_searching) 0) = 0 \<and>
   (\<exists>frontier. search_frame (search_query_frame (\<lambda>x. x) (Docs []) example_searching)
                  = Some (0, frontier, 1)) \<and>
   depth_completed (jobs example_driven1 0) = 5 \<and>
   search_frame example_driven1 = None \<and>
   job_complete (jobs example_driven1 0) \<and>
   search_success (jobs example_driven1 0) = Some True"
proof -
  note f = example_searching_facts
  note g = example_driven0_state
  have fr: "search_frame example_searching = Some (0, [], 0)" by (simp add: example_defs2)
  have q0: "query_depth_of example_depth_map 0 3 = Inr 3" by (simp add: query_depth_of_def)
  have q1: "query_depth_of example_depth_map 1 5 = Inr 2"
    using example_depth_map_facts(3) by (simp add: query_depth_of_def)
  have z0: "[(1, ''aa''), (3, ''bb'')] = zip (concat (map snd [([''aa'', ''bb''], [1, 3 :: int])]))
                                         (concat (map fst [([''aa'', ''bb''], [1, 3 :: int])]))"
    by simp
  have n0: "\<forall>tx\<in>set [(1 :: int, ''aa''), (3, ''bb'')]. snd tx \<noteq> []" by simp
  have ze: "[] = zip (concat (map snd ([] :: (string list \<times> int list) list)))
                     (concat (map fst ([] :: (string list \<times> int list) list)))"
    by simp
  have ne: "\<forall>tx\<in>set ([] :: (int \<times> string) list). snd tx \<noteq> []" by simp
  have z1: "[(2, ''cc'')] = zip (concat (map snd [([''cc''], [2 :: int])]))
                               (concat (map fst [([''cc''], [2 :: int])]))"
    by simp
  have n1: "\<forall>tx\<in>set [(2 :: int, ''cc'')]. snd tx \<noteq> []" by simp
  define a0 where "a0 = search_query (\<lambda>x. x) (Docs [([''aa'', ''bb''], [1, 3])]) 0 [] 0 example_searching"
  define ae where "ae = search_query (\<lambda>x. x) (Docs []) 0 [] 0 example_searching"
  define a1 where "a1 = search_query (\<lambda>x. x) (Docs [([''cc''], [2])]) 0 [''bb''] 1 example_driven0"
  have r0: "search_query (\<lambda>x. x) (Docs [([''aa'', ''bb''], [1, 3])]) 0 [] 0 example_searching
              = (fst a0, snd a0)"
    by (simp add: a0_def)
  have re: "search_query (\<lambda>x. x) (Docs []) 0 [] 0 example_searching = (fst ae, snd ae)"
    by (simp add: ae_def)
  have r1: "search_query (\<lambda>x. x) (Docs [([''cc''], [2])]) 0 [''bb''] 1 example_driven0
              = (fst a1, snd a1)"
    by (simp add: a1_def)
  have d0: "example_driven0 = search_query_frame (\<lambda>x. x) (Docs [([''aa'', ''bb''], [1, 3])]) example_searching"
    by (simp add: example_driven0_def example_reply0_def)
  have d1: "example_driven1 = search_query_frame (\<lambda>x. x) (Docs [([''cc''], [2])]) example_driven0"
    by (simp add: example_driven1_def example_reply1_def)
  from chunk_round_progress[OF f(1) f(2) f(3) example_depth_map_facts(1) q0 f(4) z0 n0 f(5) r0]
    f(6) f(9) fr
  obtain fr0 where A: "depth_completed (jobs (fst a0) 0) = 3" "\<not> job_complete (jobs (fst a0) 0)"
      "example_driven0 = (fst a0)\<lparr>search_frame := Some (0, fr0, 1)\<rparr>"
    unfolding d0[symmetric] by (auto split: if_splits)
  from chunk_round_progress[OF f(1) f(2) f(3) example_depth_map_facts(1) q0 f(4) ze ne f(5) re]
    f(6) f(9) fr
  obtain fre where E: "depth_completed (jobs (fst ae) 0) = 0"
      "search_query_frame (\<lambda>x. x) (Docs []) example_searching
         = (fst ae)\<lparr>search_frame := Some (0, fre, 1)\<rparr>"
    by (auto split: if_splits)
  from chunk_round_progress[OF g(1) g(2) g(3) example_depth_map_facts(2) q1 g(4) z1 n1 g(5) r1]
    g(7)
  have B: "depth_completed (jobs (fst a1) 0) = 5" "job_complete (jobs (fst a1) 0)"
      "search_success (jobs (fst a1) 0) = Some True"
      "example_driven1 = (fst a1)\<lparr>search_frame := None\<rparr>"
    unfolding d1[symmetric] by (auto split: if_splits)
  have A': "depth_completed (jobs example_driven0 0) = 3" "\<not> job_complete (jobs example_driven0 0)"
      "search_frame example_driven0 = Some (0, fr0, 1)"
    using A(1,2) by (simp_all add: A(3))
  have E': "depth_completed (jobs (search_query_frame (\<lambda>x. x) (Docs []) example_searching) 0) = 0"
      "search_frame (search_query_frame (\<lambda>x. x) (Docs []) example_searching) = Some (0, fre, 1)"
    using E(1) by (simp_all add: E(2))
  have B': "depth_completed (jobs example_driven1 0) = 5" "job_complete (jobs example_driven1 0)"
      "search_success (jobs example_driven1 0) = Some True" "search_frame example_driven1 = None"
    using B(1,2,3) by (simp_all add: B(4))
  from fr f(6) A' E' B' show ?thesis by simp
qed

text \<open>
  C6. In the same situation the request that is sent asks, from the frontier (the root
  id for chunk 0, the frontier passed in otherwise), for the depth at boundary key
  \<open>(i+1)*1000\<close> when \<open>i = 0\<close>, so the depth at key 1000, and for that depth less
  the depth at boundary key \<open>i*1000\<close> when \<open>i > 0\<close>. When the call recurses, the
  frontier it passes on is exactly the ids of the fetched transactions whose returned
  depth equals the requested depth, in the order of the answer, and the chunk index is
  the next one: when the search thread makes this call, the call it has pending
  afterwards has exactly this frontier and this index as its arguments.
\<close>

theorem chunk_request_and_frontier:
  assumes "\<not> waiting_to_cancel (jobs s r)" and "\<not> owner_finished s r"
    and "depth_map (jobs s r) = Some dm"
    and "dm (str ((i + 1) * 1000)) = Some (cur, cnt)"
    and "0 < i \<Longrightarrow> dm (str (i * 1000)) = Some (prev, pcnt)"
    and "qd = (if i = 0 then cur else cur - prev)"
    and "slpdb_host (owner_of s r) = Some host"
    and "txns = zip (concat (map snd g)) (concat (map fst g))"
    and "search_query tx_hash (Docs g) r txids i s = (s', out)"
  shows "request_log s' =
           request_log s @ [SearchPost host (if i = 0 then [root_txid (jobs s r)] else txids) qd] \<and>
         (case out of
            Recurse frontier i' \<Rightarrow>
              frontier = map (\<lambda>tx. tx_hash (snd tx)) (filter (\<lambda>tx. fst tx = qd) txns) \<and> i' = i + 1 \<and>
              (search_frame s = Some (r, txids, i) \<longrightarrow>
                 search_query_frame tx_hash (Docs g) s =
                   s'\<lparr>search_frame :=
                        Some (r, map (\<lambda>tx. tx_hash (snd tx)) (filter (\<lambda>tx. fst tx = qd) txns), i + 1)\<rparr>)
          | Return \<Rightarrow> job_complete (jobs s' r)
          | Raise e \<Rightarrow> True)"
proof -
  let ?txids = "if i = 0 then [root_txid (jobs s r)] else txids"
  let ?s1 = "upd_job r (\<lambda>job. job\<lparr>depth_current_query := Some cur\<rparr>) s"
  let ?s2 = "upd_job r (\<lambda>job. job\<lparr>last_search_url := SearchUrl host ?txids qd\<rparr>) ?s1"
  let ?s3 = "?s2\<lparr>request_log := request_log ?s2 @ [SearchPost host ?txids qd]\<rparr>"
  have qd: "query_depth_of dm i cur = Inr qd"
    using assms(5,6) by (simp add: query_depth_of_def)
  have q: "search_query tx_hash (Docs g) r txids i s = search_result tx_hash txns r i cur qd ?s3"
    using assms(1-4,7,8) qd
    by (simp add: search_query_def search_request_def Let_def owner_of_def)
  with assms(9) have r: "search_result tx_hash txns r i cur qd ?s3 = (s', out)" by simp
  have log: "request_log s' = request_log s @ [SearchPost host ?txids qd]"
    using search_result_request_log[OF r] by simp
  have fr: "case out of
            Recurse frontier i' \<Rightarrow>
              frontier = map (\<lambda>tx. tx_hash (snd tx)) (filter (\<lambda>tx. fst tx = qd) txns) \<and> i' = i + 1 \<and>
              (search_frame s = Some (r, txids, i) \<longrightarrow>
                 search_query_frame tx_hash (Docs g) s =
                   s'\<lparr>search_frame :=
                        Some (r, map (\<lambda>tx. tx_hash (snd tx)) (filter (\<lambda>tx. fst tx = qd) txns), i + 1)\<rparr>)
          | Return \<Rightarrow> job_complete (jobs s' r)
          | Raise e \<Rightarrow> True"
  proof (cases out)
    case Return
    with r show ?thesis
      by (auto simp: search_result_def Let_def set_success_def split: prod.splits option.splits if_splits)
  next
    case (Raise e)
    then show ?thesis by simp
  next
    case (Recurse f i')
    from search_result_recurse[of tx_hash txns r i cur qd ?s3 s' f i'] r Recurse
    have e: "f = map (\<lambda>tx. tx_hash (snd tx)) (filter (\<lambda>tx. fst tx = qd) txns)" "i' = i + 1"
      by simp_all
    have "search_frame s = Some (r, txids, i) \<Longrightarrow>
            search_query_frame tx_hash (Docs g) s = s'\<lparr>search_frame := Some (r, f, i')\<rparr>"
      using search_query_frame_step[OF _ assms(9)] Recurse by simp
    with e Recurse show ?thesis by simp
  qed
  from log fr show ?thesis by simp
qed

theorem chunk_request_and_frontier_witness:
  "example_depth_map ''1000'' = Some (3, 1000) \<and> example_depth_map ''2000'' = Some (5, 1200) \<and>
   search_frame example_searching = Some (0, [], 0) \<and>
   request_log example_driven0 = [MetadataGet ''host'' ''ab'', SearchPost ''host'' [''ab''] 3] \<and>
   search_frame example_driven0 = Some (0, [''bb''], 1) \<and>
   request_log example_driven1 =
     [MetadataGet ''host'' ''ab'', SearchPost ''host'' [''ab''] 3, SearchPost ''host'' [''bb''] (5 - 3)] \<and>
   search_frame example_driven1 = None"
proof -
  note f = example_searching_facts
  note g = example_driven0_state
  have fr: "search_frame example_searching = Some (0, [], 0)" by (simp add: example_defs2)
  have p0: "0 < (0::nat) \<Longrightarrow> example_depth_map (str (0 * 1000)) = Some (0, 0)" by simp
  have p1: "0 < (1::nat) \<Longrightarrow> example_depth_map (str (1 * 1000)) = Some (3, 1000)"
    using example_depth_map_facts(3) by simp
  have e0: "(3::int) = (if (0::nat) = 0 then 3 else 3 - 0)" by simp
  have e1: "(2::int) = (if (1::nat) = 0 then 5 else 5 - 3)" by simp
  define a0 where "a0 = search_query (\<lambda>x. x) (Docs [([''aa'', ''bb''], [1, 3])]) 0 [] 0 example_searching"
  define a1 where "a1 = search_query (\<lambda>x. x) (Docs [([''cc''], [2])]) 0 [''bb''] 1 example_driven0"
  have r0: "search_query (\<lambda>x. x) (Docs [([''aa'', ''bb''], [1, 3])]) 0 [] 0 example_searching
              = (fst a0, snd a0)"
    by (simp add: a0_def)
  have r1: "search_query (\<lambda>x. x) (Docs [([''cc''], [2])]) 0 [''bb''] 1 example_driven0
              = (fst a1, snd a1)"
    by (simp add: a1_def)
  have o0: "snd a0 = Recurse [''bb''] 1"
    by (simp add: a0_def search_defs example_defs2 example_depth_map_def str_1000 str_2000)
  have o1: "snd a1 = Return"
    by (simp add: a1_def example_driven0_eq example_round0_def example_reply0_def
        search_defs example_defs2 example_depth_map_def str_1000 str_2000)
  have s1: "search_query_frame (\<lambda>x. x) (Docs [([''cc''], [2])]) example_driven0
              = (fst a1)\<lparr>search_frame := None\<rparr>"
    using search_query_frame_step[OF g(7) r1] o1 by simp
  have d0: "example_driven0 = search_query_frame (\<lambda>x. x) (Docs [([''aa'', ''bb''], [1, 3])]) example_searching"
    by (simp add: example_driven0_def example_reply0_def)
  have d1: "example_driven1 = search_query_frame (\<lambda>x. x) (Docs [([''cc''], [2])]) example_driven0"
    by (simp add: example_driven1_def example_reply1_def)
  have m: "example_depth_map ''1000'' = Some (3, 1000)" "example_depth_map ''2000'' = Some (5, 1200)"
    by (simp_all add: example_depth_map_def)
  show ?thesis
    using chunk_request_and_frontier[OF f(1) f(2) f(3) example_depth_map_facts(1) p0 e0 f(4) refl r0]
      chunk_request_and_frontier[OF g(1) g(2) g(3) example_depth_map_facts(2) p1 e1 g(4) refl r1]
      f(7) f(8) g(6) g(7) o0 o1 m fr s1
    unfolding d1
    by simp
qed

subsection \<open>The depth completed\<close>

lemma round_effect_refl [simp]: "round_effect r cur s s"
  by (simp add: round_effect_def)

lemma search_result_effect:
  assumes "search_result tx_hash txns r i cur qd s = (s', out)"
  shows "round_effect r (Some cur) s s' \<and> (\<forall>f i'. out = Recurse f i' \<longrightarrow> i' = i + 1)"
proof -
  let ?s1 = "upd_job r (\<lambda>job. job\<lparr>txn_count_progress := txn_count_progress job + length txns\<rparr>) s"
  obtain s2 e where p: "tx_cache_put_all tx_hash (map (\<lambda>tx. Transaction (snd tx)) txns) ?s1 = (s2, e)"
    by (cases "tx_cache_put_all tx_hash (map (\<lambda>tx. Transaction (snd tx)) txns) ?s1")
  note f = cache_only_fields[OF tx_cache_put_all_cache_only[OF p]]
  show ?thesis
    using assms p f
    by (auto simp: search_result_def round_effect_def Let_def set_success_def
             split: option.splits if_splits)
qed

lemma search_request_effect:
  assumes "search_request tx_hash reply r txids i cur qd s = (s', out)"
  shows "round_effect r (Some cur) s s' \<and> (\<forall>f i'. out = Recurse f i' \<longrightarrow> i' = i + 1)"
proof (cases "slpdb_host (owner_of s r)")
  case None
  with assms show ?thesis by (auto simp: search_request_def)
next
  case (Some host)
  let ?s1 = "upd_job r (\<lambda>job. job\<lparr>last_search_url := SearchUrl host txids qd\<rparr>) s"
  let ?s2 = "?s1\<lparr>request_log := request_log ?s1 @ [SearchPost host txids qd]\<rparr>"
  show ?thesis
  proof (cases reply)
    case (PostRaises e)
    with assms Some show ?thesis
      by (auto simp: search_request_def Let_def round_effect_def)
  next
    case (Docs g)
    with assms Some have
      "search_result tx_hash (zip (concat (map snd g)) (concat (map fst g))) r i cur qd ?s2 = (s', out)"
      by (simp add: search_request_def Let_def)
    from search_result_effect[OF this] show ?thesis
      by (auto simp: round_effect_def)
  qed
qed

lemma search_query_effect:
  assumes "\<not> waiting_to_cancel (jobs s r)"
    and "search_query tx_hash reply r txids i s = (s', out)"
  shows "\<exists>cur. round_effect r cur s s' \<and>
           (\<forall>v. cur = Some v \<longrightarrow>
              (\<exists>dm cnt. depth_map (jobs s r) = Some dm \<and> dm (str ((i + 1) * 1000)) = Some (v, cnt))) \<and>
           (\<forall>f i'. out = Recurse f i' \<longrightarrow> i' = i + 1)"
proof (cases "owner_finished s r")
  case True
  with assms have "s' = upd_job r (set_failed (Some ''validation finished'')) s" "out = Return"
    by (auto simp: search_query_def)
  then have "round_effect r None s s'" by (simp add: round_effect_def)
  with \<open>out = Return\<close> show ?thesis by blast
next
  case False
  show ?thesis
  proof (cases "depth_map (jobs s r)")
    case None
    with assms False have "s' = s" "out = Raise (TypeError none_subscript_msg)"
      by (auto simp: search_query_def Let_def)
    then have "round_effect r None s s'" by simp
    with \<open>out = Raise (TypeError none_subscript_msg)\<close> show ?thesis by blast
  next
    case (Some dm)
    show ?thesis
    proof (cases "dm (str ((i + 1) * 1000))")
      case None
      with assms False Some have "s' = s" "out = Raise (KeyError (str ((i + 1) * 1000)))"
        by (auto simp: search_query_def Let_def)
      then have "round_effect r None s s'" by simp
      with \<open>out = Raise (KeyError (str ((i + 1) * 1000)))\<close> show ?thesis by blast
    next
      case (Some p)
      obtain cur cnt where p: "p = (cur, cnt)" by (cases p)
      let ?s1 = "upd_job r (\<lambda>job. job\<lparr>depth_current_query := Some cur\<rparr>) s"
      have e1: "round_effect r (Some cur) s ?s1" by (simp add: round_effect_def)
      show ?thesis
      proof (cases "query_depth_of dm i cur")
        case (Inl e)
        with assms False \<open>depth_map (jobs s r) = Some dm\<close> Some p
        have "s' = ?s1" "out = Raise e"
          by (auto simp: search_query_def Let_def)
        with e1 \<open>depth_map (jobs s r) = Some dm\<close> Some p show ?thesis by blast
      next
        case (Inr qd)
        with assms False \<open>depth_map (jobs s r) = Some dm\<close> Some p
        have "search_request tx_hash reply r (if i = 0 then [root_txid (jobs s r)] else txids)
                i cur qd ?s1 = (s', out)"
          by (auto simp: search_query_def Let_def)
        from search_request_effect[OF this]
        have "round_effect r (Some cur) ?s1 s'" and rec: "\<forall>f i'. out = Recurse f i' \<longrightarrow> i' = i + 1"
          by blast+
        then have "round_effect r (Some cur) s s'"
          by (auto simp: round_effect_def)
        with rec \<open>depth_map (jobs s r) = Some dm\<close> Some p show ?thesis by blast
      qed
    qed
  qed
qed

lemma invariant_cong:
  assumes "invariant s"
    and "metadata_queue s' = metadata_queue s" and "search_queue s' = search_queue s"
    and "next_job s' = next_job s" and "search_frame s' = search_frame s"
    and "\<And>r. depth_completed (jobs s' r) = depth_completed (jobs s r)"
    and "\<And>r. total_depth (jobs s' r) = total_depth (jobs s r)"
    and "\<And>r. depth_map (jobs s' r) = depth_map (jobs s r)"
  shows "invariant s'"
  using assms
  by (simp add: invariant_def frame_ok_def job_ok_def cong: option.case_cong prod.case_cong)

lemma parked_cong:
  assumes "parked r s"
    and "metadata_queue s' = metadata_queue s" and "search_queue s' = search_queue s"
    and "next_job s' = next_job s" and "search_frame s' = search_frame s"
    and "depth_completed (jobs s' r) = depth_completed (jobs s r)"
  shows "parked r s'"
  using assms by (simp add: parked_def cong: option.case_cong prod.case_cong)

lemma invariant_init: "invariant (manager_init vs)"
  by (simp add: invariant_def manager_init_def frame_ok_def)

lemma job_ok_init: "job_ok (GraphSearchJob_init t v)"
  by (simp add: job_ok_def GraphSearchJob_init_def)

lemma invariant_new_search:
  assumes "invariant s"
  shows "invariant (fst (new_search v s))"
proof -
  have fresh: "next_job s \<notin> set (metadata_queue s @ search_queue s)"
    using assms by (auto simp: invariant_def)
  have q: "\<forall>r \<in> set (metadata_queue (fst (new_search v s)) @ search_queue (fst (new_search v s))).
          r < next_job (fst (new_search v s)) \<and> depth_completed (jobs (fst (new_search v s)) r) = 0"
    using assms by (auto simp: invariant_def GraphSearchJob_init_def intro: less_SucI)
  have d: "distinct (metadata_queue (fst (new_search v s)) @ search_queue (fst (new_search v s)))"
    using assms fresh by (auto simp: invariant_def)
  have j: "\<forall>r < next_job (fst (new_search v s)). job_ok (jobs (fst (new_search v s)) r)"
    using assms by (auto simp: invariant_def job_ok_init less_Suc_eq)
  have f: "frame_ok (fst (new_search v s))"
    using assms by (auto simp: invariant_def frame_ok_def split: option.splits)
  from q d j f show ?thesis unfolding invariant_def by blast
qed

lemma invariant_restart_callback:
  assumes "invariant s"
  shows "invariant (restart_callback r s)"
proof -
  have "invariant (s\<lparr>search_jobs := (search_jobs s)(root_txid (jobs s r) := None)\<rparr>)"
    using assms by (rule invariant_cong) simp_all
  from invariant_new_search[OF this] show ?thesis
    by (simp add: restart_callback_def Let_def)
qed

lemma invariant_call_callback:
  assumes "invariant s"
  shows "invariant (call_callback cb r s)"
proof (cases cb)
  case RestartCallback
  have "invariant (s\<lparr>callback_log := callback_log s @ [(cb, r)]\<rparr>)"
    using assms by (rule invariant_cong) simp_all
  from invariant_restart_callback[OF this] RestartCallback show ?thesis
    by (simp add: call_callback_def Let_def)
next
  case (ExternalCallback n)
  have "invariant (s\<lparr>callback_log := callback_log s @ [(cb, r)]\<rparr>)"
    using assms by (rule invariant_cong) simp_all
  with ExternalCallback show ?thesis
    by (simp add: call_callback_def Let_def)
qed

lemma invariant_sched_cancel:
  assumes "invariant s"
  shows "invariant (upd_job r (sched_cancel cb reason) s)"
  using assms by (rule invariant_cong) (simp_all add: sched_cancel_def Let_def)

lemma invariant_restart_search:
  assumes "invariant s"
  shows "invariant (restart_search r s)"
  using assms
  by (simp add: restart_search_def invariant_sched_cancel invariant_call_callback)

lemma invariant_cancel:
  assumes "invariant s"
  shows "invariant (cancel r s)"
proof -
  let ?s1 = "upd_job r (\<lambda>job. job\<lparr>job_complete := True, search_success := Some False\<rparr>) s"
  have "invariant ?s1" using assms by (rule invariant_cong) simp_all
  then show ?thesis
    by (auto simp: cancel_def Let_def invariant_call_callback split: option.splits)
qed

lemma invariant_set_failed:
  assumes "invariant s"
  shows "invariant (upd_job r (set_failed m) s)"
  using assms by (rule invariant_cong) simp_all

lemma invariant_cache_only:
  assumes "invariant s" "cache_only s s'"
  shows "invariant s'"
  using assms(1) by (rule invariant_cong) (simp_all add: cache_only_fields[OF assms(2)])

lemma tx_cache_get_fields [simp]:
  "jobs (fst (tx_cache_get t s)) = jobs s"
  "metadata_queue (fst (tx_cache_get t s)) = metadata_queue s"
  "search_queue (fst (tx_cache_get t s)) = search_queue s"
  "next_job (fst (tx_cache_get t s)) = next_job s"
  "search_frame (fst (tx_cache_get t s)) = search_frame s"
  by (auto simp: tx_cache_get_def Let_def split: option.splits)

lemma invariant_tx_cache_get:
  assumes "invariant s"
  shows "invariant (fst (tx_cache_get t s))"
  using assms by (rule invariant_cong) simp_all

lemma invariant_tx_cache_put:
  assumes "invariant s"
  shows "invariant (case tx_cache_put tx_hash tx t s of Inl e \<Rightarrow> s | Inr s' \<Rightarrow> s')"
  using assms
  by (auto split: sum.splits dest: tx_cache_put_cache_only intro: invariant_cache_only)

lemma invariant_owner_changes:
  assumes "invariant s"
  shows "invariant (s\<lparr>valjobs := vs\<rparr>)"
  using assms by (rule invariant_cong) simp_all

lemma invariant_pop_metadata:
  assumes "invariant s" and "metadata_queue s = r # q"
  shows "invariant (s\<lparr>metadata_queue := q\<rparr>)" and "parked r (s\<lparr>metadata_queue := q\<rparr>)"
  using assms
  by (auto simp: invariant_def frame_ok_def parked_def split: option.splits)

lemma invariant_requeue:
  assumes "invariant s" and "parked r s"
  shows "invariant (s\<lparr>metadata_queue := metadata_queue s @ [r]\<rparr>)"
  using assms
  by (auto simp: invariant_def frame_ok_def parked_def split: option.splits)

lemma invariant_enqueue_search:
  assumes "invariant s" and "parked r s"
  shows "invariant (s\<lparr>search_queue := search_queue s @ [r]\<rparr>)"
  using assms
  by (auto simp: invariant_def frame_ok_def parked_def split: option.splits)

lemma invariant_set_metadata:
  assumes "invariant s" and "parked r s" and "stats_ok res"
  shows "invariant (upd_job r (\<lambda>_. (jobs s r)\<lparr>total_depth := totalDepth res,
            txn_count_total := txcount res, depth_map := depthMap res\<rparr>) s)"
  using assms
  by (auto simp: invariant_def frame_ok_def parked_def job_ok_def stats_ok_def
           split: option.splits)

lemma parked_set_metadata:
  assumes "parked r s"
  shows "parked r (upd_job r (\<lambda>_. (jobs s r)\<lparr>total_depth := totalDepth res,
            txn_count_total := txcount res, depth_map := depthMap res\<rparr>) s)"
  using assms by (auto simp: parked_def split: option.splits)

lemma invariant_metadata_fetch:
  assumes "invariant s" and "parked r s" and "reply_ok reply"
  shows "invariant (metadata_fetch reply r s)"
proof -
  let ?host = "case slpdb_host (owner_of s r) of None \<Rightarrow> [] | Some h \<Rightarrow> h"
  let ?s1 = "s\<lparr>request_log := request_log s @ [MetadataGet ?host (root_txid (jobs s r))]\<rparr>"
  have i1: "invariant ?s1" using assms(1) by (rule invariant_cong) simp_all
  have p1: "parked r ?s1" using assms(2) by (rule parked_cong) simp_all
  show ?thesis
  proof (cases "fetch_metadata reply (jobs ?s1 r)")
    case (Inl e)
    show ?thesis
    proof (cases "\<exists>m. e = SlpdbErrorNoSearchData m")
      case False
      with Inl have "metadata_fetch reply r s = upd_job r (set_failed (Some (str_exc e))) ?s1"
        by (cases e) (simp_all add: metadata_fetch_def Let_def)
      with invariant_set_failed[OF i1] show ?thesis by simp
    next
      case True
      then obtain m where e: "e = SlpdbErrorNoSearchData m" by blast
      show ?thesis
      proof (cases "fetch_retries (jobs ?s1 r) > 10")
        case True
        with Inl e have "metadata_fetch reply r s =
            upd_job r (set_failed (Some ''No data found, right-click to try'')) ?s1"
          by (simp add: metadata_fetch_def Let_def)
        with invariant_set_failed[OF i1] show ?thesis by simp
      next
        case False
        let ?s2 = "if metadata_queue ?s1 = [] then ?s1\<lparr>slept := slept ?s1 + 10\<rparr> else ?s1"
        let ?s3 = "upd_job r (\<lambda>job. job\<lparr>fetch_retries := fetch_retries job + 1\<rparr>) ?s2"
        have i3: "invariant ?s3" using i1 by (rule invariant_cong) simp_all
        have p3: "parked r ?s3" using p1 by (rule parked_cong) simp_all
        from Inl e False have "metadata_fetch reply r s =
            ?s3\<lparr>metadata_queue := metadata_queue ?s3 @ [r]\<rparr>"
          by (simp add: metadata_fetch_def Let_def)
        with invariant_requeue[OF i3 p3] show ?thesis by simp
      qed
    qed
  next
    case (Inr job')
    from fetch_metadata_Inr[OF Inr] obtain res where
      q: "metadata_query reply = Inr (Some res)" and
      j: "job' = (jobs ?s1 r)\<lparr>total_depth := totalDepth res, txn_count_total := txcount res,
             depth_map := depthMap res\<rparr>"
      by blast
    from q assms(3) have ok: "stats_ok res" by (simp add: reply_ok_def)
    let ?s2 = "upd_job r (\<lambda>_. job') ?s1"
    have i2: "invariant ?s2" unfolding j by (rule invariant_set_metadata[OF i1 p1 ok])
    have p2: "parked r ?s2" unfolding j by (rule parked_set_metadata[OF p1])
    show ?thesis
    proof (cases "txn_count_total job'")
      case None
      with Inr have "metadata_fetch reply r s = upd_job r (set_failed (Some ''metadata error'')) ?s2"
        by (simp add: metadata_fetch_def Let_def)
      with invariant_set_failed[OF i2] show ?thesis by simp
    next
      case (Some n)
      show ?thesis
      proof (cases "n \<le> cancel_thresh_txcount ?s2")
        case True
        with Inr Some have "metadata_fetch reply r s =
            upd_job r (set_failed (Some ''low txn count'')) ?s2"
          by (simp add: metadata_fetch_def Let_def)
        with invariant_set_failed[OF i2] show ?thesis by simp
      next
        case False
        with Inr Some have "metadata_fetch reply r s =
            ?s2\<lparr>search_queue := search_queue ?s2 @ [r]\<rparr>"
          by (simp add: metadata_fetch_def Let_def)
        with invariant_enqueue_search[OF i2 p2] show ?thesis by simp
      qed
    qed
  qed
qed

lemma invariant_metadata_loop:
  assumes "invariant s" and "reply_ok reply"
  shows "invariant (metadata_loop reply s)"
proof (cases "metadata_queue s")
  case Nil
  with assms show ?thesis by (simp add: metadata_loop_def)
next
  case (Cons r q)
  let ?s1 = "s\<lparr>metadata_queue := q\<rparr>"
  note i1 = invariant_pop_metadata(1)[OF assms(1) Cons]
  note p1 = invariant_pop_metadata(2)[OF assms(1) Cons]
  let ?s2 = "?s1\<lparr>search_jobs := (search_jobs ?s1)(root_txid (jobs ?s1 r) \<mapsto> r)\<rparr>"
  have i2: "invariant ?s2" using i1 by (rule invariant_cong) simp_all
  have p2: "parked r ?s2" using p1 by (rule parked_cong) simp_all
  show ?thesis
  proof (cases "search_jobs ?s1 (root_txid (jobs ?s1 r)) \<noteq> None")
    case True
    with Cons have "metadata_loop reply s = ?s1" by (simp add: metadata_loop_def Let_def)
    with i1 show ?thesis by simp
  next
    case dupF: False
    show ?thesis
    proof (cases "owner_finished ?s2 r")
      case True
      with Cons dupF have "metadata_loop reply s =
          upd_job r (set_failed (Some ''validation finished'')) ?s2"
        by (simp add: metadata_loop_def Let_def)
      with invariant_set_failed[OF i2] show ?thesis by simp
    next
      case ownF: False
      show ?thesis
      proof (cases "slpdb_host (owner_of ?s2 r) = None \<or> slpdb_host (owner_of ?s2 r) = Some []")
        case True
        with Cons dupF ownF have "metadata_loop reply s =
            upd_job r (set_failed (Some ''SLPDB host not set'')) ?s2"
          by (simp add: metadata_loop_def Let_def)
        with invariant_set_failed[OF i2] show ?thesis by simp
      next
        case False
        with Cons dupF ownF have "metadata_loop reply s = metadata_fetch reply r ?s2"
          by (auto simp: metadata_loop_def Let_def)
        with invariant_metadata_fetch[OF i2 p2 assms(2)] show ?thesis by simp
      qed
    qed
  qed
qed

lemma invariant_search_loop:
  assumes "invariant s"
  shows "invariant (search_loop s)"
proof (cases "search_frame s")
  case (Some f)
  with assms show ?thesis by (simp add: search_loop_def)
next
  case None
  show ?thesis
  proof (cases "search_queue s")
    case Nil
    with None assms show ?thesis by (simp add: search_loop_def)
  next
    case (Cons r q)
    let ?s1 = "s\<lparr>search_queue := q\<rparr>"
    let ?s2 = "upd_job r (\<lambda>job. job\<lparr>search_started := True\<rparr>) ?s1"
    have i1: "invariant ?s1"
      using assms Cons None by (auto simp: invariant_def frame_ok_def)
    have i2: "invariant ?s2" using i1 by (rule invariant_cong) simp_all
    have rq: "r < next_job s" "depth_completed (jobs s r) = 0"
      "r \<notin> set (metadata_queue s)" "r \<notin> set q"
      using assms Cons by (auto simp: invariant_def)
    have jr: "job_ok (jobs s r)" using assms rq(1) by (simp add: invariant_def)
    have fo: "frame_ok (?s2\<lparr>search_frame := Some (r, [], 0)\<rparr>)"
    proof -
      have "0 \<le> d" if "depth_map (jobs s r) = Some dm" "dm k = Some (d, c)" for dm k d c
        using jr that by (auto simp: job_ok_def depth_map_ok_def)
      then show ?thesis using rq by (auto simp: frame_ok_def)
    qed
    have fr: "invariant (?s2\<lparr>search_frame := Some (r, [], 0)\<rparr>)"
      using i2 fo by (simp add: invariant_def)
    from Cons None have "search_loop s = upd_job r (set_failed (Some ''validation finished'')) ?s2
        \<or> search_loop s = ?s2\<lparr>search_frame := Some (r, [], 0)\<rparr>"
      by (simp add: search_loop_def Let_def)
    with invariant_set_failed[OF i2] fr show ?thesis by auto
  qed
qed

lemma invariant_round:
  assumes inv: "invariant s" and fr: "search_frame s = Some (r, txids, i)"
    and eff: "round_effect r cur s s'"
    and cur: "\<forall>v. cur = Some v \<longrightarrow>
               (\<exists>dm cnt. depth_map (jobs s r) = Some dm \<and> dm (str ((i + 1) * 1000)) = Some (v, cnt))"
  shows "invariant (s'\<lparr>search_frame := None\<rparr>)"
    and "invariant (s'\<lparr>search_frame := Some (r, txids', i + 1)\<rparr>)"
    and "depth_completed (jobs s r) \<le> depth_completed (jobs s' r)"
proof -
  from inv fr have rn: "r < next_job s" and rm: "r \<notin> set (metadata_queue s)"
    and rs: "r \<notin> set (search_queue s)"
    and F: "\<And>dm n d c. depth_map (jobs s r) = Some dm \<Longrightarrow> i < n \<Longrightarrow>
              dm (str (n * 1000)) = Some (d, c) \<Longrightarrow> depth_completed (jobs s r) \<le> d"
    by (auto simp: invariant_def frame_ok_def)
  from inv rn have jr: "job_ok (jobs s r)" by (simp add: invariant_def)
  from eff have e: "metadata_queue s' = metadata_queue s" "search_queue s' = search_queue s"
    "next_job s' = next_job s" "\<And>r'. r' \<noteq> r \<Longrightarrow> jobs s' r' = jobs s r'"
    "total_depth (jobs s' r) = total_depth (jobs s r)"
    "depth_map (jobs s' r) = depth_map (jobs s r)"
    and dc: "depth_completed (jobs s' r) = depth_completed (jobs s r) \<or>
             cur = Some (depth_completed (jobs s' r))"
    by (auto simp: round_effect_def)
  from dc cur have dc': "depth_completed (jobs s' r) = depth_completed (jobs s r) \<or>
      (\<exists>dm cnt. depth_map (jobs s r) = Some dm \<and>
         dm (str ((i + 1) * 1000)) = Some (depth_completed (jobs s' r), cnt))"
    by blast
  from dc' show mono: "depth_completed (jobs s r) \<le> depth_completed (jobs s' r)"
  proof
    assume "depth_completed (jobs s' r) = depth_completed (jobs s r)"
    then show ?thesis by simp
  next
    assume "\<exists>dm cnt. depth_map (jobs s r) = Some dm \<and>
         dm (str ((i + 1) * 1000)) = Some (depth_completed (jobs s' r), cnt)"
    then obtain dm cnt where "depth_map (jobs s r) = Some dm"
      "dm (str ((i + 1) * 1000)) = Some (depth_completed (jobs s' r), cnt)" by blast
    from F[OF this(1) _ this(2)] show ?thesis by simp
  qed
  have jr': "job_ok (jobs s' r)"
    using dc'
  proof
    assume "depth_completed (jobs s' r) = depth_completed (jobs s r)"
    with jr e(5,6) show ?thesis by (simp add: job_ok_def cong: option.case_cong)
  next
    assume "\<exists>dm cnt. depth_map (jobs s r) = Some dm \<and>
         dm (str ((i + 1) * 1000)) = Some (depth_completed (jobs s' r), cnt)"
    then obtain dm cnt where d: "depth_map (jobs s r) = Some dm"
      "dm (str ((i + 1) * 1000)) = Some (depth_completed (jobs s' r), cnt)" by blast
    from jr d(1) have ok: "depth_map_ok dm (total_depth (jobs s r))" by (simp add: job_ok_def)
    with d(2) have "case total_depth (jobs s r) of None \<Rightarrow> True
        | Some t \<Rightarrow> depth_completed (jobs s' r) \<le> t"
      unfolding depth_map_ok_def by blast
    with ok d(1) e(5,6) show ?thesis by (simp add: job_ok_def cong: option.case_cong)
  qed
  have q: "\<forall>r' \<in> set (metadata_queue s' @ search_queue s').
             r' < next_job s' \<and> depth_completed (jobs s' r') = 0"
  proof
    fix r' assume a: "r' \<in> set (metadata_queue s' @ search_queue s')"
    with e(1,2) rm rs have "r' \<noteq> r" by auto
    with a e inv show "r' < next_job s' \<and> depth_completed (jobs s' r') = 0"
      by (auto simp: invariant_def)
  qed
  have di: "distinct (metadata_queue s' @ search_queue s')"
    using inv e(1,2) by (simp add: invariant_def)
  have js: "\<forall>r' < next_job s'. job_ok (jobs s' r')"
  proof (intro allI impI)
    fix r' assume "r' < next_job s'"
    with inv e(3) have "job_ok (jobs s r')" by (simp add: invariant_def)
    with jr' e(4) show "job_ok (jobs s' r')" by (cases "r' = r") simp_all
  qed
  from q di js show "invariant (s'\<lparr>search_frame := None\<rparr>)"
    by (simp add: invariant_def frame_ok_def)
  have G: "depth_completed (jobs s' r) \<le> d"
    if a: "depth_map (jobs s' r) = Some dm" "i + 1 < n" "dm (str (n * 1000)) = Some (d, c)"
    for dm n d c
    using dc'
  proof
    assume "depth_completed (jobs s' r) = depth_completed (jobs s r)"
    with F[of dm n d c] a e(6) show ?thesis by simp
  next
    assume "\<exists>dm cnt. depth_map (jobs s r) = Some dm \<and>
         dm (str ((i + 1) * 1000)) = Some (depth_completed (jobs s' r), cnt)"
    then obtain cnt where d: "dm (str ((i + 1) * 1000)) = Some (depth_completed (jobs s' r), cnt)"
      using a(1) e(6) by auto
    from jr a(1) e(6) have ok: "depth_map_ok dm (total_depth (jobs s r))" by (simp add: job_ok_def)
    from a(2) have le: "(i + 1) * 1000 \<le> n * 1000" by simp
    from ok le d a(3) show ?thesis unfolding depth_map_ok_def by blast
  qed
  have "frame_ok (s'\<lparr>search_frame := Some (r, txids', i + 1)\<rparr>)"
    using rn rm rs e(1,2,3) G by (auto simp: frame_ok_def)
  with q di js show "invariant (s'\<lparr>search_frame := Some (r, txids', i + 1)\<rparr>)"
    by (simp add: invariant_def)
qed

lemma invariant_frame_none:
  assumes "invariant s"
  shows "invariant (s\<lparr>search_frame := None\<rparr>)"
  using assms by (simp add: invariant_def frame_ok_def)

lemma invariant_search_query_frame:
  assumes inv: "invariant s"
  shows "invariant (search_query_frame tx_hash reply s)"
proof (cases "search_frame s")
  case None
  with inv show ?thesis by (simp add: search_query_frame_def)
next
  case (Some f)
  obtain r txids i where f: "f = (r, txids, i)" by (cases f)
  obtain s' out where sq: "search_query tx_hash reply r txids i s = (s', out)"
    by (cases "search_query tx_hash reply r txids i s")
  show ?thesis
  proof (cases "waiting_to_cancel (jobs s r)")
    case True
    with sq have "s' = cancel r s" "out = Return" by (auto simp: search_query_def)
    with Some f sq have "search_query_frame tx_hash reply s = (cancel r s)\<lparr>search_frame := None\<rparr>"
      by (simp add: search_query_frame_def)
    with invariant_frame_none[OF invariant_cancel[OF inv]] show ?thesis by simp
  next
    case False
    from search_query_effect[OF False sq] obtain cur where
      eff: "round_effect r cur s s'" and
      cur: "\<forall>v. cur = Some v \<longrightarrow>
              (\<exists>dm cnt. depth_map (jobs s r) = Some dm \<and> dm (str ((i + 1) * 1000)) = Some (v, cnt))" and
      rec: "\<forall>f i'. out = Recurse f i' \<longrightarrow> i' = i + 1"
      by blast
    from Some f have fr: "search_frame s = Some (r, txids, i)" by simp
    note R = invariant_round[OF inv fr eff cur]
    show ?thesis
    proof (cases out)
      case Return
      with Some f sq R(1) show ?thesis by (simp add: search_query_frame_def)
    next
      case (Raise e)
      have "invariant (upd_job r (set_failed (Some (str_exc e))) (s'\<lparr>search_frame := None\<rparr>))"
        by (rule invariant_set_failed[OF R(1)])
      then have "invariant ((upd_job r (set_failed (Some (str_exc e))) s')\<lparr>search_frame := None\<rparr>)"
        by (rule invariant_cong) simp_all
      with Some f sq Raise show ?thesis by (simp add: search_query_frame_def)
    next
      case (Recurse txids' i')
      with rec have "i' = i + 1" by simp
      with Some f sq Recurse R(2)[of txids'] show ?thesis by (simp add: search_query_frame_def)
    qed
  qed
qed

lemma invariant_exec:
  assumes "invariant s" and "event_ok e"
  shows "invariant (exec tx_hash e s)"
proof (cases e)
  case (NewSearch v)
  with assms show ?thesis by (simp add: invariant_new_search)
next
  case (RestartSearch r)
  with assms show ?thesis by (simp add: invariant_restart_search)
next
  case (SchedCancel r cb reason)
  with assms show ?thesis by (simp add: invariant_sched_cancel)
next
  case (OwnerChanges v vj)
  with assms show ?thesis by (simp add: invariant_owner_changes)
next
  case (TxCacheGet t)
  with assms show ?thesis by (simp add: invariant_tx_cache_get)
next
  case (TxCachePut tx t)
  with assms show ?thesis by (simp add: invariant_tx_cache_put)
next
  case (MetadataLoop reply)
  with assms show ?thesis by (simp add: invariant_metadata_loop)
next
  case SearchLoop
  with assms show ?thesis by (simp add: invariant_search_loop)
next
  case (SearchQuery reply)
  with assms show ?thesis by (simp add: invariant_search_query_frame)
qed

lemma invariant_fold:
  assumes "invariant s" and "\<forall>x \<in> set es. event_ok x"
  shows "invariant (fold (exec tx_hash) es s)"
  using assms
  by (induction es arbitrary: s) (simp_all add: invariant_exec)

lemma dc_metadata_fetch:
  "depth_completed (jobs (metadata_fetch reply r s) r0) = depth_completed (jobs s r0)"
  by (auto simp: metadata_fetch_def Let_def dest!: fetch_metadata_Inr
           split: sum.splits option.splits py_exception.splits if_splits)

lemma dc_metadata_loop:
  "depth_completed (jobs (metadata_loop reply s) r0) = depth_completed (jobs s r0)"
  by (auto simp: metadata_loop_def Let_def dc_metadata_fetch split: list.splits)

lemma dc_search_loop:
  "depth_completed (jobs (search_loop s) r0) = depth_completed (jobs s r0)"
  by (auto simp: search_loop_def Let_def split: option.splits list.splits)

lemma dc_call_callback:
  "r0 < next_job s \<Longrightarrow>
     depth_completed (jobs (call_callback cb r s) r0) = depth_completed (jobs s r0)"
  by (cases cb) simp_all

lemma dc_cancel:
  "r0 < next_job s \<Longrightarrow> depth_completed (jobs (cancel r s) r0) = depth_completed (jobs s r0)"
  by (auto simp: cancel_def Let_def split: option.splits callback.splits)

lemma dc_restart_search:
  "r0 < next_job s \<Longrightarrow>
     depth_completed (jobs (restart_search r s) r0) = depth_completed (jobs s r0)"
  by (auto simp: restart_search_def sched_cancel_def Let_def)

lemma dc_tx_cache_put:
  "depth_completed (jobs (case tx_cache_put tx_hash tx t s of Inl e \<Rightarrow> s | Inr s' \<Rightarrow> s') r0)
     = depth_completed (jobs s r0)"
proof (cases "tx_cache_put tx_hash tx t s")
  case (Inl e)
  then show ?thesis by simp
next
  case (Inr s')
  from cache_only_fields[OF tx_cache_put_cache_only[OF Inr]] Inr show ?thesis by simp
qed

lemma dc_search_query_frame:
  assumes inv: "invariant s" and r0: "r0 < next_job s"
  shows "depth_completed (jobs s r0) \<le> depth_completed (jobs (search_query_frame tx_hash reply s) r0)"
proof (cases "search_frame s")
  case None
  then show ?thesis by (simp add: search_query_frame_def)
next
  case (Some f)
  obtain r txids i where f: "f = (r, txids, i)" by (cases f)
  obtain s' out where sq: "search_query tx_hash reply r txids i s = (s', out)"
    by (cases "search_query tx_hash reply r txids i s")
  from inv Some f have rn: "r < next_job s" by (simp add: invariant_def frame_ok_def)
  have dc: "depth_completed (jobs (search_query_frame tx_hash reply s) r0)
              = depth_completed (jobs s' r0)"
    using Some f sq by (cases out) (simp_all add: search_query_frame_def)
  show ?thesis
  proof (cases "waiting_to_cancel (jobs s r)")
    case True
    with sq have s': "s' = cancel r s" by (auto simp: search_query_def)
    with dc r0 show ?thesis by (simp add: dc_cancel)
  next
    case False
    from search_query_effect[OF False sq] obtain cur where
      eff: "round_effect r cur s s'" and
      cur: "\<forall>v. cur = Some v \<longrightarrow>
              (\<exists>dm cnt. depth_map (jobs s r) = Some dm \<and> dm (str ((i + 1) * 1000)) = Some (v, cnt))"
      by blast
    from Some f have fr: "search_frame s = Some (r, txids, i)" by simp
    show ?thesis
    proof (cases "r0 = r")
      case True
      with invariant_round(3)[OF inv fr eff cur] dc show ?thesis by simp
    next
      case False
      with eff have "jobs s' r0 = jobs s r0" by (simp add: round_effect_def)
      with dc show ?thesis by simp
    qed
  qed
qed

lemma dc_exec:
  assumes "invariant s" and "r0 < next_job s"
  shows "depth_completed (jobs s r0) \<le> depth_completed (jobs (exec tx_hash e s) r0)"
proof (cases e)
  case (NewSearch v)
  with assms show ?thesis by simp
next
  case (RestartSearch r)
  with assms show ?thesis by (simp add: dc_restart_search)
next
  case (SchedCancel r cb reason)
  with assms show ?thesis by (simp add: sched_cancel_def Let_def)
next
  case (OwnerChanges v vj)
  with assms show ?thesis by simp
next
  case (TxCacheGet t)
  with assms show ?thesis by simp
next
  case (TxCachePut tx t)
  with assms show ?thesis by (simp add: dc_tx_cache_put)
next
  case (MetadataLoop reply)
  with assms show ?thesis by (simp add: dc_metadata_loop)
next
  case SearchLoop
  with assms show ?thesis by (simp add: dc_search_loop)
next
  case (SearchQuery reply)
  with assms show ?thesis by (simp add: dc_search_query_frame)
qed

lemma digit_inj:
  assumes "a < 10" and "b < 10" and "digit a = digit b"
  shows "a = b"
proof -
  have d: "distinct ''0123456789''" by simp
  have l: "length ''0123456789'' = 10" by simp
  from assms show ?thesis
    unfolding digit_def using nth_eq_iff_index_eq[OF d, of a b] l by simp
qed

lemma str_nonempty: "str n \<noteq> []"
  by (subst str.simps) simp

lemma str_inj: "str m = str n \<Longrightarrow> m = n"
proof (induction m arbitrary: n rule: str.induct)
  case (1 m)
  show ?case
  proof (cases "m < 10")
    case True
    then have m: "str m = [digit m]" by (subst str.simps) simp
    show ?thesis
    proof (cases "n < 10")
      case True
      then have "str n = [digit n]" by (subst str.simps) simp
      with m 1(2) have "digit m = digit n" by simp
      with \<open>m < 10\<close> True show ?thesis by (rule digit_inj)
    next
      case False
      then have "str n = str (n div 10) @ [digit (n mod 10)]" by (subst str.simps) simp
      with m 1(2) have "str (n div 10) = []" by simp
      with str_nonempty show ?thesis by blast
    qed
  next
    case False
    then have m: "str m = str (m div 10) @ [digit (m mod 10)]" by (subst str.simps) simp
    show ?thesis
    proof (cases "n < 10")
      case True
      then have "str n = [digit n]" by (subst str.simps) simp
      with m 1(2) have "str (m div 10) = []" by simp
      with str_nonempty show ?thesis by blast
    next
      case nF: False
      then have "str n = str (n div 10) @ [digit (n mod 10)]" by (subst str.simps) simp
      with m 1(2) have e: "str (m div 10) = str (n div 10)" "digit (m mod 10) = digit (n mod 10)"
        by simp_all
      from 1(1)[OF False e(1)] have d: "m div 10 = n div 10" .
      have "m mod 10 = n mod 10" by (rule digit_inj[OF _ _ e(2)]) simp_all
      with d show ?thesis by (metis div_mult_mod_eq)
    qed
  qed
qed

lemma str_eq_1000: "str n = ''1000'' \<longleftrightarrow> n = 1000"
  using str_inj[of n 1000] str_1000 by auto

lemma str_eq_2000: "str n = ''2000'' \<longleftrightarrow> n = 2000"
  using str_inj[of n 2000] str_2000 by auto

lemma example_depth_map_ok: "depth_map_ok example_depth_map (Some 5)"
proof -
  have b: "0 \<le> d \<and> d \<le> 5" if "example_depth_map k = Some (d, c)" for k d c
    using that by (auto simp: example_depth_map_def split: if_splits)
  have m: "d \<le> d'"
    if "m \<le> n" "example_depth_map (str m) = Some (d, c)" "example_depth_map (str n) = Some (d', c')"
    for m n d c d' c'
    using that by (auto simp: example_depth_map_def str_eq_1000 str_eq_2000 split: if_splits)
  from b m show ?thesis unfolding depth_map_ok_def by simp
qed

lemma example_stats_ok: "event_ok (MetadataLoop (example_stats n))"
  by (simp add: reply_ok_def example_stats_def metadata_query_def stats_ok_def example_depth_map_ok)

lemma example_searching_fold:
  "fold (exec tx_hash) [NewSearch 0, MetadataLoop (example_stats (Some 21)), SearchLoop]
     (manager_init (\<lambda>_. example_owner)) = example_searching"
  by (simp add: example_searching_def example_admitted_def example_manager_def)

lemma example_searching_frame:
  "search_frame example_searching = Some (0, [], 0)" "next_job example_searching = 1"
  by (simp_all add: example_defs2)

lemma example_round0_dc:
  "depth_completed (jobs (fst example_round0) 0) = 3"
  "snd example_round0 = Recurse [''bb''] 1"
  by (simp_all add: example_round0_def example_reply0_def search_defs example_defs2
      example_depth_map_def str_1000 str_2000 sched_cancel_def)

lemma skewed_run_facts:
  "depth_completed (jobs (skewed_run td) 0) = 5"
  "total_depth (jobs (skewed_run td) 0) = Some td"
  "next_job (skewed_run td) = 1"
  "search_frame (skewed_run 10) = Some (0, [''aa''], 1)"
  "\<not> waiting_to_cancel (jobs (skewed_run 10) 0)"
  "\<not> owner_finished (skewed_run 10) 0"
  "depth_map (jobs (skewed_run 10) 0) = Some (Map.empty(''1000'' \<mapsto> (5, 1000), ''2000'' \<mapsto> (3, 1200)))"
  "slpdb_host (owner_of (skewed_run 10) 0) = Some ''host''"
  by (simp_all add: skewed_run_def skewed_stats_def search_query_frame_def search_defs example_defs2
      str_1000 str_2000 sched_cancel_def)

text \<open>
  C3. As stated the property fails: nothing in the code compares the depths of the depth
  map with each other or with the total depth, so a summary whose depth map decreases, or
  exceeds the total depth, makes \<open>depth_completed\<close> decrease, or exceed it (the
  example after the theorem). What holds is this. Take any sequence
  of events from a new manager in which every metadata summary the back end delivers is
  well-formed: its total depth is not negative, and the depths in its depth map are not
  negative, are at most the total depth and do not decrease as the boundary key grows.
  Then for every job that exists, whatever event comes next does not decrease
  \<open>depth_completed\<close>, and \<open>depth_completed\<close> is at most the job's total depth whenever
  that has been fetched.
\<close>

theorem depth_completed_monotone_bounded:
  assumes "\<forall>x \<in> set es. event_ok x"
    and "s = fold (exec tx_hash) es (manager_init vs)"
    and "r < next_job s"
  shows "depth_completed (jobs s r) \<le> depth_completed (jobs (exec tx_hash e s) r) \<and>
         (case total_depth (jobs s r) of None \<Rightarrow> True | Some td \<Rightarrow> depth_completed (jobs s r) \<le> td)"
proof -
  from invariant_fold[OF invariant_init assms(1)] assms(2) have inv: "invariant s" by simp
  from inv assms(3) have "job_ok (jobs s r)" by (simp add: invariant_def)
  then have "case total_depth (jobs s r) of None \<Rightarrow> True | Some td \<Rightarrow> depth_completed (jobs s r) \<le> td"
    by (simp add: job_ok_def)
  with dc_exec[OF inv assms(3)] show ?thesis by simp
qed

theorem depth_completed_monotone_bounded_witness:
  "event_ok (NewSearch 0) \<and> event_ok (MetadataLoop (example_stats (Some 21))) \<and> event_ok SearchLoop \<and>
   fold (exec (\<lambda>x. x)) [NewSearch 0, MetadataLoop (example_stats (Some 21)), SearchLoop]
     (manager_init (\<lambda>_. example_owner)) = example_searching \<and>
   0 < next_job example_searching \<and>
   depth_completed (jobs example_searching 0) = 0 \<and>
   depth_completed (jobs (exec (\<lambda>x. x) (SearchQuery example_reply0) example_searching) 0) = 3 \<and>
   total_depth (jobs example_searching 0) = Some 5 \<and>
   depth_completed (jobs example_searching 0)
     \<le> depth_completed (jobs (exec (\<lambda>x. x) (SearchQuery example_reply0) example_searching) 0)"
proof -
  have ev: "\<forall>x \<in> set [NewSearch 0, MetadataLoop (example_stats (Some 21)), SearchLoop]. event_ok x"
    using example_stats_ok by simp
  have n: "0 < next_job example_searching" by (simp add: example_searching_frame)
  have r0: "search_query (\<lambda>x. x) example_reply0 0 [] 0 example_searching
              = (fst example_round0, Recurse [''bb''] 1)"
    using example_round0_dc(2) by (simp add: example_round0_def prod_eq_iff)
  have x: "depth_completed (jobs (exec (\<lambda>x. x) (SearchQuery example_reply0) example_searching) 0) = 3"
    by (simp add: search_query_frame_def example_searching_frame r0 example_round0_dc(1))
  from depth_completed_monotone_bounded[where e = "SearchQuery example_reply0"
      and tx_hash = "\<lambda>x. x", OF ev example_searching_fold[symmetric] n]
  show ?thesis
    using example_stats_ok example_searching_fold n x example_searching_facts(5,6) by simp
qed

text \<open>
  With the summary \<open>skewed_stats\<close> the first chunk sets the depth completed to 5 and
  the second sets it to 3; with total depth 4 the first chunk already leaves it above the
  total depth.
\<close>

theorem depth_completed_counterexample:
  "0 < next_job (skewed_run 10) \<and>
   depth_completed (jobs (skewed_run 10) 0) = 5 \<and>
   depth_completed (jobs (exec (\<lambda>x. x) (SearchQuery (Docs [([''bb''], [- 2])])) (skewed_run 10)) 0) = 3 \<and>
   \<not> depth_completed (jobs (skewed_run 10) 0)
       \<le> depth_completed (jobs (exec (\<lambda>x. x) (SearchQuery (Docs [([''bb''], [- 2])])) (skewed_run 10)) 0) \<and>
   0 < next_job (skewed_run 4) \<and>
   total_depth (jobs (skewed_run 4) 0) = Some 4 \<and>
   depth_completed (jobs (skewed_run 4) 0) = 5 \<and>
   \<not> (case total_depth (jobs (skewed_run 4) 0) of None \<Rightarrow> True
        | Some td \<Rightarrow> depth_completed (jobs (skewed_run 4) 0) \<le> td)"
proof -
  note f = skewed_run_facts
  have x: "depth_completed (jobs (exec (\<lambda>x. x) (SearchQuery (Docs [([''bb''], [- 2])])) (skewed_run 10)) 0) = 3"
    by (simp add: skewed_run_def skewed_stats_def search_query_frame_def search_defs example_defs2
        str_1000 str_2000 sched_cancel_def)
  from x show ?thesis by (simp add: f)
qed

end
